theory Spec2Isabelle
  imports Main "HOL-Library.List_Lexorder" "HOL-Library.Char_ord"
begin

section \<open>Declarations, as the matchers and filters see them\<close>

text \<open>
  The tool works on \<^verbatim>\<open>types.Object\<close> values of the Go type checker. An object has a
  name and a type; the type is either a struct with an ordered list of fields, a slice, or
  something the matchers cannot look into. The method set of the pointer to the object's
  type (\<^verbatim>\<open>types.NewMethodSet(types.NewPointer(o.Type()))\<close>) is a sequence of
  method objects, each with a name and a source position.
\<close>

datatype gotype = Opaque | Struct "field list" | Slice gotype
and field = Field (fname: string) (tref: string) (embedded: bool) (ftype: gotype)

record func =
  fn_Name :: string
  fn_Pos :: nat

record object =
  Name :: string
  Type :: gotype
  MethodSet :: "func list"

section \<open>Package match: object matchers\<close>

text \<open>\<^verbatim>\<open>type Object func(o types.Object) bool\<close>\<close>

type_synonym Object = "object \<Rightarrow> bool"

subsection \<open>AllOf and AnyOf\<close>

text \<open>
  The loops of \<^verbatim>\<open>AllOf\<close> and \<^verbatim>\<open>AnyOf\<close>, returning the result together with
  the number of matchers that were called before the loop returned.
\<close>

fun AllOf_run :: "Object list \<Rightarrow> object \<Rightarrow> bool \<times> nat" where
  "AllOf_run [] ob = (True, 0)"
| "AllOf_run (fn # match) ob =
     (if \<not> fn ob then (False, 1)
      else (case AllOf_run match ob of (r, n) \<Rightarrow> (r, Suc n)))"

fun AnyOf_run :: "Object list \<Rightarrow> object \<Rightarrow> bool \<times> nat" where
  "AnyOf_run [] ob = (False, 0)"
| "AnyOf_run (fn # match) ob =
     (if fn ob then (True, 1)
      else (case AnyOf_run match ob of (r, n) \<Rightarrow> (r, Suc n)))"

definition AllOf :: "Object list \<Rightarrow> Object" where
  "AllOf match = (\<lambda>ob. fst (AllOf_run match ob))"

definition AnyOf :: "Object list \<Rightarrow> Object" where
  "AnyOf match = (\<lambda>ob. fst (AnyOf_run match ob))"

definition AllOf_calls :: "Object list \<Rightarrow> object \<Rightarrow> nat" where
  "AllOf_calls match ob = snd (AllOf_run match ob)"

definition AnyOf_calls :: "Object list \<Rightarrow> object \<Rightarrow> nat" where
  "AnyOf_calls match ob = snd (AnyOf_run match ob)"

subsection \<open>HasMarker and DoesNotHaveMarker\<close>

text \<open>
  \<^verbatim>\<open>comments.Comments\<close> gives two comment texts for an object: \<^verbatim>\<open>c.For(o)\<close>, the
  comment attached to it, and \<^verbatim>\<open>c.Before(o)\<close>, the comment immediately before it.
  \<^verbatim>\<open>comments.ParseMarkers\<close> turns a comment text into a \<^verbatim>\<open>map[string][]string\<close>.
  The package \<^verbatim>\<open>comments\<close> is not part of the sources at hand, so the parser is a
  parameter of the matchers below.
\<close>

record comments =
  For :: "object \<Rightarrow> string"
  Before :: "object \<Rightarrow> string"

type_synonym Markers = "string \<rightharpoonup> string list"

type_synonym parser = "string \<Rightarrow> Markers"

text \<open>Indexing a Go map with an absent key yields the zero value, here the nil slice.\<close>

definition markers_at :: "Markers \<Rightarrow> string \<Rightarrow> string list" where
  "markers_at m k = (case m k of None \<Rightarrow> [] | Some vals \<Rightarrow> vals)"

text \<open>\<^verbatim>\<open>for _, val := range vals { if val == v { return true } }\<close>\<close>

fun has_value :: "string \<Rightarrow> string list \<Rightarrow> bool" where
  "has_value v [] = False"
| "has_value v (val # vals) = (if val = v then True else has_value v vals)"

datatype source = SrcFor | SrcBefore

text \<open>
  \<^verbatim>\<open>HasMarker\<close>, returning the result together with the comment sources that were read,
  in the order in which they were read.
\<close>

definition HasMarker_run ::
  "parser \<Rightarrow> comments \<Rightarrow> string \<Rightarrow> string \<Rightarrow> object \<Rightarrow> bool \<times> source list" where
  "HasMarker_run ParseMarkers c k v ob =
     (if has_value v (markers_at (ParseMarkers (For c ob)) k) then (True, [SrcFor])
      else if has_value v (markers_at (ParseMarkers (Before c ob)) k)
        then (True, [SrcFor, SrcBefore])
      else (False, [SrcFor, SrcBefore]))"

definition HasMarker :: "parser \<Rightarrow> comments \<Rightarrow> string \<Rightarrow> string \<Rightarrow> Object" where
  "HasMarker ParseMarkers c k v = (\<lambda>ob. fst (HasMarker_run ParseMarkers c k v ob))"

definition HasMarker_reads ::
  "parser \<Rightarrow> comments \<Rightarrow> string \<Rightarrow> string \<Rightarrow> object \<Rightarrow> source list" where
  "HasMarker_reads ParseMarkers c k v ob = snd (HasMarker_run ParseMarkers c k v ob)"

definition DoesNotHaveMarker :: "parser \<Rightarrow> comments \<Rightarrow> string \<Rightarrow> string \<Rightarrow> Object" where
  "DoesNotHaveMarker ParseMarkers c k v = (\<lambda>ob. \<not> HasMarker ParseMarkers c k v ob)"

section \<open>Package method: the collision filter\<close>

text \<open>
  \<^verbatim>\<open>type Filter func(o types.Object, methodName string) bool\<close>. A
  \<^verbatim>\<open>token.FileSet\<close> is used only through \<^verbatim>\<open>fs.Position(pos).Filename\<close>, so it is
  the function from positions to file names.
\<close>

type_synonym Filter = "object \<Rightarrow> string \<Rightarrow> bool"

type_synonym FileSet = "nat \<Rightarrow> string"

fun DefinedOutside_loop :: "FileSet \<Rightarrow> string \<Rightarrow> func list \<Rightarrow> string \<Rightarrow> bool" where
  "DefinedOutside_loop fs filename [] name = False"
| "DefinedOutside_loop fs filename (mo # s) name =
     (if fn_Name mo \<noteq> name then DefinedOutside_loop fs filename s name
      else if fs (fn_Pos mo) \<noteq> filename then True
      else DefinedOutside_loop fs filename s name)"

definition DefinedOutside :: "FileSet \<Rightarrow> string \<Rightarrow> Filter" where
  "DefinedOutside fs filename = (\<lambda>ob name. DefinedOutside_loop fs filename (MethodSet ob) name)"

section \<open>Package fields: field matchers\<close>

text \<open>
  Modelled from the spec: package \<^verbatim>\<open>fields\<close> is not among the sources; \<^verbatim>\<open>match.go\<close>
  only calls it. A field matcher is a predicate on one field (spec 3, Predicate).
\<close>

type_synonym Matcher = "field \<Rightarrow> bool"

text \<open>
  Modelled from the spec: the method \<^verbatim>\<open>And\<close> of a field matcher, absent with package
  \<^verbatim>\<open>fields\<close>. Predicates compose by logical AND (spec 3).
\<close>

definition And :: "Matcher \<Rightarrow> Matcher \<Rightarrow> Matcher" where
  "And p q = (\<lambda>f. p f \<and> q f)"

text \<open>
  Modelled from the spec: \<^verbatim>\<open>fields.IsEmbedded\<close>, absent with package \<^verbatim>\<open>fields\<close>.
  True iff the field's embedded flag is set (spec 4.1).
\<close>

definition IsEmbedded :: Matcher where
  "IsEmbedded = (\<lambda>f. embedded f)"

text \<open>
  Modelled from the spec: the name test of package \<^verbatim>\<open>fields\<close>, absent with it. True
  iff the field name equals the given name (spec 4.1, \<^verbatim>\<open>NamedField\<close>).
\<close>

definition NamedField :: "string \<Rightarrow> Matcher" where
  "NamedField name = (\<lambda>f. fname f = name)"

text \<open>
  Modelled from the spec: the constants \<^verbatim>\<open>fields.NameSpec\<close> and
  \<^verbatim>\<open>fields.NameStatus\<close>, absent with package \<^verbatim>\<open>fields\<close>: the conventional names
  "Spec" and "Status" (spec 4.1, 4.3).
\<close>

definition NameSpec :: string where
  "NameSpec = ''Spec''"

definition NameStatus :: string where
  "NameStatus = ''Status''"

text \<open>
  Modelled from the spec: \<^verbatim>\<open>fields.IsSpec\<close> and \<^verbatim>\<open>fields.IsStatus\<close>, absent with
  package \<^verbatim>\<open>fields\<close>: a field named "Spec", a field named "Status" (spec 4.3).
\<close>

definition IsSpec :: Matcher where
  "IsSpec = NamedField NameSpec"

definition IsStatus :: Matcher where
  "IsStatus = NamedField NameStatus"

text \<open>
  Modelled from the spec: the nested fields of a field, one level into a struct-typed
  field, or into the struct that is the element of a slice-typed field (spec 3, Field;
  spec 4.1 and 4.3). A field of any other type has none.
\<close>

fun nested_fields :: "field \<Rightarrow> field list option" where
  "nested_fields (Field n t e (Struct fs)) = Some fs"
| "nested_fields (Field n t e (Slice (Struct fs))) = Some fs"
| "nested_fields (Field n t e _) = None"

text \<open>
  Modelled from the spec: \<^verbatim>\<open>fields.HasFieldThat\<close>, absent with package \<^verbatim>\<open>fields\<close>.
  True iff among the nested fields at least one satisfies the conjunction of the given
  predicates; false when the field's type does not resolve to a struct (spec 4.1).
\<close>

definition HasFieldThat :: "Matcher list \<Rightarrow> Matcher" where
  "HasFieldThat ms = (\<lambda>f.
     case nested_fields f of
       None \<Rightarrow> False
     | Some fs \<Rightarrow> list_ex (\<lambda>g. list_all (\<lambda>m. m g) ms) fs)"

text \<open>
  Modelled from the spec: the direct fields of a declaration, its ordered sequence of
  fields (spec 3, Declaration); a declaration that is not a struct has none.
\<close>

definition direct_fields :: "object \<Rightarrow> field list" where
  "direct_fields ob = (case Type ob of Struct fs \<Rightarrow> fs | _ \<Rightarrow> [])"

text \<open>
  Modelled from the spec: \<^verbatim>\<open>fields.Has\<close>, absent with package \<^verbatim>\<open>fields\<close>. True iff
  for every supplied field predicate at least one of the declaration's direct fields
  satisfies it (spec 4.1).
\<close>

definition Has :: "object \<Rightarrow> Matcher list \<Rightarrow> bool" where
  "Has ob ms = list_all (\<lambda>m. list_ex m (direct_fields ob)) ms"

text \<open>
  Modelled from the spec: the recognisers \<^verbatim>\<open>fields.IsTypeMeta\<close>,
  \<^verbatim>\<open>fields.IsObjectMeta\<close>, \<^verbatim>\<open>fields.IsResourceSpec\<close> and
  \<^verbatim>\<open>fields.IsResourceStatus\<close>, absent with package \<^verbatim>\<open>fields\<close>. The spec names
  them only as "TypeMeta-shaped", "ObjectMeta-shaped", "resource-spec-shaped" and
  "resource-status-shaped" fields (spec 4.3), so they are kept as four field predicates
  that the matcher is given.
\<close>

record shapes =
  IsTypeMeta :: Matcher
  IsObjectMeta :: Matcher
  IsResourceSpec :: Matcher
  IsResourceStatus :: Matcher

subsection \<open>Managed\<close>

text \<open>\<^verbatim>\<open>match.Managed\<close>, as written in \<^verbatim>\<open>match.go\<close>.\<close>

definition Managed :: "shapes \<Rightarrow> Object" where
  "Managed V = (\<lambda>ob.
     Has ob
       [And (IsTypeMeta V) IsEmbedded,
        And (IsObjectMeta V) IsEmbedded,
        And IsSpec (HasFieldThat [And (IsResourceSpec V) IsEmbedded]),
        And IsStatus (HasFieldThat [And (IsResourceStatus V) IsEmbedded])])"

subsection \<open>The matcher of a generation category\<close>

text \<open>\<^verbatim>\<open>DisableMarker\<close> of \<^verbatim>\<open>genmethodsets.go\<close>.\<close>

definition DisableMarker :: string where
  "DisableMarker = ''ndd:generate:methods''"

text \<open>
  Every \<^verbatim>\<open>Generate...\<close> function of the command passes
  \<^verbatim>\<open>match.AllOf(shape, match.DoesNotHaveMarker(comments.In(p), DisableMarker, "false"))\<close>
  to \<^verbatim>\<open>generate.WithMatcher\<close>, where \<^verbatim>\<open>shape\<close> is the recogniser of its category:
  \<^verbatim>\<open>match.Managed()\<close> in \<^verbatim>\<open>GenerateManaged\<close>, \<^verbatim>\<open>match.ManagedList()\<close> in
  \<^verbatim>\<open>GenerateManagedList\<close>, and so on. \<^term>\<open>c\<close> stands for \<^verbatim>\<open>comments.In(p)\<close>.
\<close>

definition category_matcher :: "Object \<Rightarrow> parser \<Rightarrow> comments \<Rightarrow> Object" where
  "category_matcher shape P c = AllOf [shape, DoesNotHaveMarker P c DisableMarker ''false'']"

definition GenerateManaged_matcher :: "shapes \<Rightarrow> parser \<Rightarrow> comments \<Rightarrow> Object" where
  "GenerateManaged_matcher V P c = category_matcher (Managed V) P c"

text \<open>Ways of changing a declaration, used to state what the matcher depends on.\<close>

definition with_fields :: "(field list \<Rightarrow> field list) \<Rightarrow> object \<Rightarrow> object" where
  "with_fields h ob = ob\<lparr>Type := (case Type ob of Struct fs \<Rightarrow> Struct (h fs) | t \<Rightarrow> t)\<rparr>"

fun with_nested :: "(field list \<Rightarrow> field list) \<Rightarrow> field \<Rightarrow> field" where
  "with_nested h (Field n t e (Struct fs)) = Field n t e (Struct (h fs))"
| "with_nested h (Field n t e (Slice (Struct fs))) = Field n t e (Slice (Struct (h fs)))"
| "with_nested h (Field n t e ty) = Field n t e ty"

definition remove_fields :: "Matcher \<Rightarrow> field list \<Rightarrow> field list" where
  "remove_fields p fs = filter (\<lambda>f. \<not> p f) fs"

fun unembed :: "field \<Rightarrow> field" where
  "unembed (Field n t e ty) = Field n t False ty"

definition unembed_fields :: "Matcher \<Rightarrow> field list \<Rightarrow> field list" where
  "unembed_fields p fs = map (\<lambda>f. if p f then unembed f else f) fs"

definition in_named :: "string \<Rightarrow> (field list \<Rightarrow> field list) \<Rightarrow> field list \<Rightarrow> field list" where
  "in_named name h fs = map (\<lambda>f. if fname f = name then with_nested h f else f) fs"

definition nested :: "field \<Rightarrow> field list" where
  "nested f = (case nested_fields f of None \<Rightarrow> [] | Some fs \<Rightarrow> fs)"


section \<open>Package method: method sets\<close>

text \<open>
  \<^verbatim>\<open>type New func(f *jen.File, o types.Object)\<close>: a generator adds a method for the
  object to the file. The file is threaded through the calls. \<^verbatim>\<open>type Set map[string]New\<close>.
\<close>

type_synonym 'f New = "'f \<Rightarrow> object \<Rightarrow> 'f"

type_synonym 'f Set = "string \<rightharpoonup> 'f New"

text \<open>
  The second loop of \<^verbatim>\<open>Set.Write\<close>, over the sorted names. It returns the file and
  the names whose generators were called, in the order of the calls. Calling the nil
  function that the map yields for an absent name panics: that is the result
  \<^term>\<open>None\<close>.
\<close>

fun Write_loop ::
  "'f Set \<Rightarrow> object \<Rightarrow> Filter \<Rightarrow> string list \<Rightarrow> 'f \<times> string list \<Rightarrow> ('f \<times> string list) option" where
  "Write_loop s ob mf [] (f, calls) = Some (f, calls)"
| "Write_loop s ob mf (name # names) (f, calls) =
     (if mf ob name then Write_loop s ob mf names (f, calls)
      else (case s name of
              None \<Rightarrow> None
            | Some g \<Rightarrow> Write_loop s ob mf names (g f ob, calls @ [name])))"

text \<open>
  \<^verbatim>\<open>Set.Write\<close>. The first loop, \<^verbatim>\<open>for name := range s\<close>, visits the keys of the
  map in an order that Go leaves unspecified: \<^term>\<open>keys\<close> is that order.
  \<^verbatim>\<open>sort.Strings\<close> sorts by the byte-wise lexicographic order of strings.
\<close>

definition Write_run ::
  "string list \<Rightarrow> 'f Set \<Rightarrow> 'f \<Rightarrow> object \<Rightarrow> Filter \<Rightarrow> ('f \<times> string list) option" where
  "Write_run keys s f ob mf = Write_loop s ob mf (sort keys) (f, [])"

definition Write :: "string list \<Rightarrow> 'f Set \<Rightarrow> 'f \<Rightarrow> object \<Rightarrow> Filter \<Rightarrow> 'f option" where
  "Write keys s f ob mf = map_option fst (Write_run keys s f ob mf)"

text \<open>A generator that only records its name in the file, for the examples.\<close>

definition emit :: "string \<Rightarrow> string list New" where
  "emit label = (\<lambda>f ob. f @ [label])"









section \<open>The command: genmethodsets.go\<close>

subsection \<open>Errors\<close>

text \<open>
  An error is a message or, after \<^verbatim>\<open>errors.Wrap\<close> of \<^verbatim>\<open>github.com/pkg/errors\<close>,
  a cause with a message in front of it. \<^verbatim>\<open>errors.Wrap(nil, msg)\<close> is \<^verbatim>\<open>nil\<close>.
\<close>

datatype error = Err string | WithMessage error string

fun Error :: "error \<Rightarrow> string" where
  "Error (Err msg) = msg"
| "Error (WithMessage cause msg) = msg @ '': '' @ Error cause"

definition Wrap :: "error option \<Rightarrow> string \<Rightarrow> error option" where
  "Wrap err message = (case err of None \<Rightarrow> None | Some e \<Rightarrow> Some (WithMessage e message))"

text \<open>\<^verbatim>\<open>fmt.Sprintf("%s : %s", a, b)\<close>, an error being printed by its \<^verbatim>\<open>Error()\<close>.\<close>

definition Sprintf2 :: "string \<Rightarrow> string \<Rightarrow> string" where
  "Sprintf2 a b = a @ '' : '' @ b"

definition errLoadPackages :: string where
  "errLoadPackages = ''cannot load packages''"

definition errReadheaderFile :: string where
  "errReadheaderFile = ''cannot read header file''"

definition errWriteManagedResourceMethod :: string where
  "errWriteManagedResourceMethod = ''cannot write managed resource method set for package''"

definition errWriteManagedResourceListMethod :: string where
  "errWriteManagedResourceListMethod =
     ''cannot write managed resource list method set for package''"

definition errLoadingPackages :: string where
  "errLoadingPackages = ''error loading packages using pattern''"

definition errWriteTargetConfigMethod :: string where
  "errWriteTargetConfigMethod = ''cannot write target config methods''"

definition errWriteTargetConfigUsageMethod :: string where
  "errWriteTargetConfigUsageMethod = ''cannot write target config usage methods''"

definition errWriteTargetConfigUsageListMethod :: string where
  "errWriteTargetConfigUsageListMethod = ''cannot write target config usage list methods''"

subsection \<open>Packages and the five generation categories\<close>

text \<open>The fields of \<^verbatim>\<open>packages.Package\<close> that the command reads.\<close>

record package =
  PkgPath :: string
  GoFiles :: "string list"
  Errors :: "error list"

datatype category =
  CatManaged | CatManagedList | CatTargetConfig | CatTargetConfigUsage
| CatTargetConfigUsageList

text \<open>
  A function returns normally with a value, or it panics. The state of the world outside
  (the files written so far) is returned in both cases.
\<close>

datatype 'a outcome = Panic | Return 'a

text \<open>
  \<^verbatim>\<open>generate.WriteMethods\<close> is not part of the sources at hand, so it is a parameter:
  called for a category (which fixes the method set, the file name and the matcher it is
  given) and a package, it changes the world outside and returns an error or \<^verbatim>\<open>nil\<close>.
\<close>

type_synonym 'w writer = "category \<Rightarrow> package \<Rightarrow> 'w \<Rightarrow> error option \<times> 'w"

text \<open>
  The common body of the five \<^verbatim>\<open>Generate...\<close> functions. The argument
  \<^verbatim>\<open>filepath.Dir(p.GoFiles[0])\<close> is evaluated before \<^verbatim>\<open>generate.WriteMethods\<close> is
  called, and indexing an empty \<^verbatim>\<open>GoFiles\<close> panics. The result is
  \<^verbatim>\<open>errors.Wrap(err, msg)\<close> with the message of the category.
\<close>

definition generate_category ::
  "category \<Rightarrow> string \<Rightarrow> 'w writer \<Rightarrow> package \<Rightarrow> 'w \<Rightarrow> error option outcome \<times> 'w" where
  "generate_category cat msg WriteMethods p w =
     (case GoFiles p of
        [] \<Rightarrow> (Panic, w)
      | file # _ \<Rightarrow> (case WriteMethods cat p w of (err, w') \<Rightarrow> (Return (Wrap err msg), w')))"

definition GenerateManaged :: "'w writer \<Rightarrow> package \<Rightarrow> 'w \<Rightarrow> error option outcome \<times> 'w" where
  "GenerateManaged = generate_category CatManaged errWriteManagedResourceMethod"

definition GenerateManagedList :: "'w writer \<Rightarrow> package \<Rightarrow> 'w \<Rightarrow> error option outcome \<times> 'w" where
  "GenerateManagedList = generate_category CatManagedList errWriteManagedResourceListMethod"

definition GenerateTargetConfig :: "'w writer \<Rightarrow> package \<Rightarrow> 'w \<Rightarrow> error option outcome \<times> 'w" where
  "GenerateTargetConfig = generate_category CatTargetConfig errWriteTargetConfigMethod"

definition GenerateTargetConfigUsage ::
  "'w writer \<Rightarrow> package \<Rightarrow> 'w \<Rightarrow> error option outcome \<times> 'w" where
  "GenerateTargetConfigUsage =
     generate_category CatTargetConfigUsage errWriteTargetConfigUsageMethod"

definition GenerateTargetConfigUsageList ::
  "'w writer \<Rightarrow> package \<Rightarrow> 'w \<Rightarrow> error option outcome \<times> 'w" where
  "GenerateTargetConfigUsageList =
     generate_category CatTargetConfigUsageList errWriteTargetConfigUsageListMethod"

subsection \<open>RunE\<close>

text \<open>
  The chain of \<^verbatim>\<open>if err := Generate...(...); err != nil { return errors.Wrap(err,
  fmt.Sprintf("%s : %s", err, pkg.PkgPath)) }\<close> in the body of the loop over the
  packages: the generators run in order until one returns an error or panics.
\<close>

fun run_generators ::
  "(package \<Rightarrow> 'w \<Rightarrow> error option outcome \<times> 'w) list \<Rightarrow> package \<Rightarrow> 'w
     \<Rightarrow> error option outcome \<times> 'w" where
  "run_generators [] pkg w = (Return None, w)"
| "run_generators (gen # gens) pkg w =
     (case gen pkg w of
        (Panic, w') \<Rightarrow> (Panic, w')
      | (Return (Some err), w') \<Rightarrow>
          (Return (Wrap (Some err) (Sprintf2 (Error err) (PkgPath pkg))), w')
      | (Return None, w') \<Rightarrow> run_generators gens pkg w')"

text \<open>
  The loop \<^verbatim>\<open>for _, pkg := range pkgs\<close>. The inner loop over \<^verbatim>\<open>pkg.Errors\<close>
  returns at its first element.
\<close>

fun RunE_loop ::
  "(package \<Rightarrow> 'w \<Rightarrow> error option outcome \<times> 'w) list \<Rightarrow> string \<Rightarrow> package list \<Rightarrow> 'w
     \<Rightarrow> error option outcome \<times> 'w" where
  "RunE_loop gens pattern [] w = (Return None, w)"
| "RunE_loop gens pattern (pkg # pkgs) w =
     (case Errors pkg of
        err # _ \<Rightarrow> (Return (Wrap (Some err) (Sprintf2 errLoadingPackages pattern)), w)
      | [] \<Rightarrow>
          (case run_generators gens pkg w of
             (Return None, w') \<Rightarrow> RunE_loop gens pattern pkgs w'
           | (r, w') \<Rightarrow> (r, w')))"

text \<open>
  \<^verbatim>\<open>RunE\<close> of \<^verbatim>\<open>genmethodsetCmd\<close>, in the version with five categories. The results
  of \<^verbatim>\<open>packages.Load\<close> and of \<^verbatim>\<open>ioutil.ReadFile(headerFile)\<close> are given:
  \<^term>\<open>loaded\<close> is the error or the packages, \<^term>\<open>header_read\<close> the error or the
  contents of the header file.
\<close>

definition RunE ::
  "'w writer \<Rightarrow> string \<Rightarrow> string \<Rightarrow> error + package list \<Rightarrow> error + string \<Rightarrow> 'w
     \<Rightarrow> error option outcome \<times> 'w" where
  "RunE WriteMethods pattern headerFile loaded header_read w =
     (case loaded of
        Inl err \<Rightarrow> (Return (Wrap (Some err) (Sprintf2 errLoadPackages pattern)), w)
      | Inr pkgs \<Rightarrow>
          (case (if headerFile \<noteq> [] then header_read else Inr []) of
             Inl err \<Rightarrow> (Return (Wrap (Some err) (Sprintf2 errReadheaderFile headerFile)), w)
           | Inr header \<Rightarrow>
               RunE_loop
                 [GenerateManaged WriteMethods,
                  GenerateManagedList WriteMethods,
                  GenerateTargetConfig WriteMethods,
                  GenerateTargetConfigUsage WriteMethods,
                  GenerateTargetConfigUsageList WriteMethods] pattern pkgs w))"

text \<open>
  \<^verbatim>\<open>RunE\<close> in the version of \<^verbatim>\<open>genmethodsets.go\<close> with two categories.
\<close>

definition RunE_two ::
  "'w writer \<Rightarrow> string \<Rightarrow> string \<Rightarrow> error + package list \<Rightarrow> error + string \<Rightarrow> 'w
     \<Rightarrow> error option outcome \<times> 'w" where
  "RunE_two WriteMethods pattern headerFile loaded header_read w =
     (case loaded of
        Inl err \<Rightarrow> (Return (Wrap (Some err) (Sprintf2 errLoadPackages pattern)), w)
      | Inr pkgs \<Rightarrow>
          (case (if headerFile \<noteq> [] then header_read else Inr []) of
             Inl err \<Rightarrow> (Return (Wrap (Some err) (Sprintf2 errReadheaderFile headerFile)), w)
           | Inr header \<Rightarrow>
               RunE_loop
                 [GenerateManaged WriteMethods,
                  GenerateManagedList WriteMethods] pattern pkgs w))"

text \<open>
  The message with which each category wraps the error of \<^verbatim>\<open>generate.WriteMethods\<close>.
\<close>

fun category_message :: "category \<Rightarrow> string" where
  "category_message CatManaged = errWriteManagedResourceMethod"
| "category_message CatManagedList = errWriteManagedResourceListMethod"
| "category_message CatTargetConfig = errWriteTargetConfigMethod"
| "category_message CatTargetConfigUsage = errWriteTargetConfigUsageMethod"
| "category_message CatTargetConfigUsageList = errWriteTargetConfigUsageListMethod"

text \<open>
  To observe which calls of \<^verbatim>\<open>generate.WriteMethods\<close> a run makes, the world outside
  is taken to be the list of the calls made so far, and the result of a call may depend
  on all of them.
\<close>

type_synonym calls = "(category \<times> package) list"

definition logging :: "(calls \<Rightarrow> category \<Rightarrow> package \<Rightarrow> error option) \<Rightarrow> calls writer" where
  "logging result = (\<lambda>cat p log. (result log cat p, log @ [(cat, p)]))"

text \<open>The error that the command returns when a category fails for a package.\<close>

definition category_failure :: "category \<Rightarrow> package \<Rightarrow> error \<Rightarrow> error" where
  "category_failure cat p e =
     WithMessage (WithMessage e (category_message cat))
       (category_message cat @ '': '' @ Error e @ '' : '' @ PkgPath p)"


text \<open>
  Every call in \<^term>\<open>new\<close>, made after the calls in \<^term>\<open>log0\<close>, returned
  \<^verbatim>\<open>nil\<close>.
\<close>

fun all_nil :: "(calls \<Rightarrow> category \<Rightarrow> package \<Rightarrow> error option) \<Rightarrow> calls \<Rightarrow> calls \<Rightarrow> bool" where
  "all_nil result log0 [] = True"
| "all_nil result log0 (x # xs) =
     (result log0 (fst x) (snd x) = None \<and> all_nil result (log0 @ [x]) xs)"

text \<open>
  What a run that made the calls \<^term>\<open>new\<close> after \<^term>\<open>log0\<close> and ended with
  \<^term>\<open>r\<close> must look like: either no call failed, and then the run did not end by
  itself with success after a failure; or the last call failed and the run returned its
  error, wrapped.
\<close>

definition fail_fast ::
  "(calls \<Rightarrow> category \<Rightarrow> package \<Rightarrow> error option) \<Rightarrow> calls \<Rightarrow> error option outcome \<Rightarrow> calls \<Rightarrow> bool" where
  "fail_fast result log0 r new =
     (all_nil result log0 new
      \<or> (\<exists>pre c p e. new = pre @ [(c, p)] \<and> all_nil result log0 pre
            \<and> result (log0 @ pre) c p = Some e
            \<and> r = Return (Some (category_failure c p e))))"

definition logged ::
  "(calls \<Rightarrow> category \<Rightarrow> package \<Rightarrow> error option) \<Rightarrow> category list
     \<Rightarrow> (package \<Rightarrow> calls \<Rightarrow> error option outcome \<times> calls) list" where
  "logged result cats =
     map (\<lambda>c. generate_category c (category_message c) (logging result)) cats"

section \<open>Package method: the generators and the code they write\<close>

subsection \<open>The code written to a file\<close>

text \<open>
  The generators build Go code with the library \<^verbatim>\<open>jen\<close>. What they build is kept
  here as syntax: types, expressions, statements, and the items of a file (comments and
  methods). Only the forms that the generators below use are present. A method
  \<^verbatim>\<open>Method r T name ps res blk\<close> is \<^verbatim>\<open>func (r *T) name(ps) res { blk }\<close>.
\<close>

datatype gtype =
  TBool | TInt64 | TString
| TQual string string
| TPtr gtype
| TSlice gtype

datatype expr =
  EId string
| EDot expr string
| EIndex expr expr
| EAddr expr
| ELen expr
| EMake gtype expr

datatype stmt =
  SDefine string expr
| SAssign expr expr
| SForRange string expr "stmt list"
| SReturn expr

datatype code =
  Commentf string
| Method string string string "(string \<times> gtype) list" "gtype list" "stmt list"

type_synonym File = "code list"

subsection \<open>Generators\<close>

text \<open>
  \<^verbatim>\<open>NewManagedGetItems\<close>:
  \<^verbatim>\<open>func (l *T) GetItems() []resource.Managed { items := make([]resource.Managed,
  len(l.Items)); for i := range l.Items { items[i] = &l.Items[i] }; return items }\<close>
\<close>

definition NewManagedGetItems :: "string \<Rightarrow> string \<Rightarrow> File New" where
  "NewManagedGetItems receiver resource = (\<lambda>f ob.
     f @ [Commentf (''GetItems of this '' @ Name ob @ ''.''),
          Method receiver (Name ob) ''GetItems'' [] [TSlice (TQual resource ''Managed'')]
            [SDefine ''items''
               (EMake (TSlice (TQual resource ''Managed'')) (ELen (EDot (EId receiver) ''Items''))),
             SForRange ''i'' (EDot (EId receiver) ''Items'')
               [SAssign (EIndex (EId ''items'') (EId ''i''))
                  (EAddr (EIndex (EDot (EId receiver) ''Items'') (EId ''i'')))],
             SReturn (EId ''items'')]])"

text \<open>
  \<^verbatim>\<open>NewSetNetworkNodeReference\<close> and \<^verbatim>\<open>NewGetNetworkNodeReference\<close>, the setter
  and getter of a reference under \<^verbatim>\<open>Spec\<close> that the sources have.
\<close>

definition NewSetNetworkNodeReference :: "string \<Rightarrow> string \<Rightarrow> File New" where
  "NewSetNetworkNodeReference receiver runtime = (\<lambda>f ob.
     f @ [Commentf (''SetNetworkNodeReference of this '' @ Name ob @ ''.''),
          Method receiver (Name ob) ''SetNetworkNodeReference''
            [(''r'', TPtr (TQual runtime ''Reference''))] []
            [SAssign (EDot (EDot (EId receiver) NameSpec) ''NetworkNodeReference'') (EId ''r'')]])"

definition NewGetNetworkNodeReference :: "string \<Rightarrow> string \<Rightarrow> File New" where
  "NewGetNetworkNodeReference receiver runtime = (\<lambda>f ob.
     f @ [Commentf (''GetNetworkNodeReference of this '' @ Name ob @ ''.''),
          Method receiver (Name ob) ''GetNetworkNodeReference''
            [] [TPtr (TQual runtime ''Reference'')]
            [SReturn (EDot (EDot (EId receiver) NameSpec) ''NetworkNodeReference'')]])"

text \<open>
  Modelled from the spec: \<^verbatim>\<open>method.NewSetTargetConfigReference\<close>, which
  \<^verbatim>\<open>GenerateManaged\<close> registers under the name \<^verbatim>\<open>SetTargetConfigReference\<close> and
  which is not among the sources. The spec (4.4) gives
  \<^verbatim>\<open>SetTargetConfigReference(*Reference)\<close>, writing \<^verbatim>\<open>Spec.TargetConfigReference\<close>.
\<close>

definition NewSetTargetConfigReference :: "string \<Rightarrow> string \<Rightarrow> File New" where
  "NewSetTargetConfigReference receiver runtime = (\<lambda>f ob.
     f @ [Commentf (''SetTargetConfigReference of this '' @ Name ob @ ''.''),
          Method receiver (Name ob) ''SetTargetConfigReference''
            [(''r'', TPtr (TQual runtime ''Reference''))] []
            [SAssign (EDot (EDot (EId receiver) NameSpec) ''TargetConfigReference'') (EId ''r'')]])"

text \<open>
  Modelled from the spec: \<^verbatim>\<open>method.NewGetTargetConfigReference\<close>, which
  \<^verbatim>\<open>GenerateManaged\<close> registers under the name \<^verbatim>\<open>GetTargetConfigReference\<close> and
  which is not among the sources. The spec (4.4) gives
  \<^verbatim>\<open>GetTargetConfigReference() *Reference\<close>, reading \<^verbatim>\<open>Spec.TargetConfigReference\<close>.
\<close>

definition NewGetTargetConfigReference :: "string \<Rightarrow> string \<Rightarrow> File New" where
  "NewGetTargetConfigReference receiver runtime = (\<lambda>f ob.
     f @ [Commentf (''GetTargetConfigReference of this '' @ Name ob @ ''.''),
          Method receiver (Name ob) ''GetTargetConfigReference''
            [] [TPtr (TQual runtime ''Reference'')]
            [SReturn (EDot (EDot (EId receiver) NameSpec) ''TargetConfigReference'')]])"

subsection \<open>What the written code does\<close>

text \<open>
  The meaning of the written Go code, over an explicit store. A value is nil, a
  boolean, an integer, a string, a pointer (the address of a cell and a path of field
  names into the struct kept there), a slice (the address of its first element and its
  length; the elements are the cells that follow) or a struct. The store is the list of
  its cells, a cell's address being its index; allocation appends cells.
\<close>

datatype val =
  VNil | VBool bool | VInt int | VStr string
| VPtr nat "string list"
| VSlice nat nat
| VStruct "(string \<times> val) list"

record state =
  locals :: "string \<rightharpoonup> val"
  heap :: "val list"

datatype place = PVar string | PHeap nat "string list"

fun get_path :: "val \<Rightarrow> string list \<Rightarrow> val option" where
  "get_path v [] = Some v"
| "get_path v (f # p) =
     (case v of
        VStruct fs \<Rightarrow> (case map_of fs f of None \<Rightarrow> None | Some v' \<Rightarrow> get_path v' p)
      | _ \<Rightarrow> None)"

definition set_field :: "(string \<times> val) list \<Rightarrow> string \<Rightarrow> val \<Rightarrow> (string \<times> val) list" where
  "set_field fs f v = map (\<lambda>(g, old). if g = f then (g, v) else (g, old)) fs"

fun set_path :: "val \<Rightarrow> string list \<Rightarrow> val \<Rightarrow> val option" where
  "set_path v [] new = Some new"
| "set_path v (f # p) new =
     (case v of
        VStruct fs \<Rightarrow>
          (case map_of fs f of
             None \<Rightarrow> None
           | Some v' \<Rightarrow>
               (case set_path v' p new of
                  None \<Rightarrow> None
                | Some v'' \<Rightarrow> Some (VStruct (set_field fs f v''))))
      | _ \<Rightarrow> None)"

definition read_place :: "state \<Rightarrow> place \<Rightarrow> val option" where
  "read_place st pl =
     (case pl of
        PVar x \<Rightarrow> locals st x
      | PHeap a p \<Rightarrow> if a < length (heap st) then get_path (heap st ! a) p else None)"

definition write_place :: "state \<Rightarrow> place \<Rightarrow> val \<Rightarrow> state option" where
  "write_place st pl v =
     (case pl of
        PVar x \<Rightarrow> Some (st\<lparr>locals := (locals st)(x \<mapsto> v)\<rparr>)
      | PHeap a p \<Rightarrow>
          if a < length (heap st)
          then (case set_path (heap st ! a) p v of
                  None \<Rightarrow> None
                | Some cell \<Rightarrow> Some (st\<lparr>heap := (heap st)[a := cell]\<rparr>))
          else None)"

text \<open>
  The zero value of a type. A type of another package is taken to be an interface, as
  \<^verbatim>\<open>resource.Managed\<close> is.
\<close>

fun zero_of :: "gtype \<Rightarrow> val" where
  "zero_of TBool = VBool False"
| "zero_of TInt64 = VInt 0"
| "zero_of TString = VStr []"
| "zero_of _ = VNil"

text \<open>
  Expressions: \<^term>\<open>eval\<close> gives the value, \<^term>\<open>place_of\<close> the place that an
  addressable expression denotes. The result \<^term>\<open>None\<close> is a panic (a nil
  dereference, an index out of range) or code that would not compile. A selector on a
  pointer dereferences it.
\<close>

fun eval :: "expr \<Rightarrow> state \<Rightarrow> (val \<times> state) option"
  and place_of :: "expr \<Rightarrow> state \<Rightarrow> (place \<times> state) option" where
  "eval (EId x) st = (case locals st x of None \<Rightarrow> None | Some v \<Rightarrow> Some (v, st))"
| "eval (EDot e f) st =
     (case place_of (EDot e f) st of
        None \<Rightarrow> None
      | Some (pl, st') \<Rightarrow> (case read_place st' pl of None \<Rightarrow> None | Some v \<Rightarrow> Some (v, st')))"
| "eval (EIndex e i) st =
     (case place_of (EIndex e i) st of
        None \<Rightarrow> None
      | Some (pl, st') \<Rightarrow> (case read_place st' pl of None \<Rightarrow> None | Some v \<Rightarrow> Some (v, st')))"
| "eval (EAddr e) st =
     (case place_of e st of
        Some (PHeap a p, st') \<Rightarrow> Some (VPtr a p, st')
      | _ \<Rightarrow> None)"
| "eval (ELen e) st =
     (case eval e st of
        Some (VSlice b n, st') \<Rightarrow> Some (VInt (int n), st')
      | Some (VNil, st') \<Rightarrow> Some (VInt 0, st')
      | _ \<Rightarrow> None)"
| "eval (EMake t e) st =
     (case t of
        TSlice elem \<Rightarrow>
          (case eval e st of
             Some (VInt n, st') \<Rightarrow>
               if n < 0 then None
               else Some (VSlice (length (heap st')) (nat n),
                          st'\<lparr>heap := heap st' @ replicate (nat n) (zero_of elem)\<rparr>)
           | _ \<Rightarrow> None)
      | _ \<Rightarrow> None)"
| "place_of (EId x) st = Some (PVar x, st)"
| "place_of (EDot e f) st =
     (case eval e st of
        Some (VPtr a p, st') \<Rightarrow> Some (PHeap a (p @ [f]), st')
      | Some (VStruct fs, st') \<Rightarrow>
          (case place_of e st of
             Some (PHeap a p, st'') \<Rightarrow> Some (PHeap a (p @ [f]), st'')
           | _ \<Rightarrow> None)
      | _ \<Rightarrow> None)"
| "place_of (EIndex e i) st =
     (case eval e st of
        Some (VSlice b n, st') \<Rightarrow>
          (case eval i st' of
             Some (VInt k, st'') \<Rightarrow>
               if 0 \<le> k \<and> k < int n then Some (PHeap (b + nat k) [], st'') else None
           | _ \<Rightarrow> None)
      | _ \<Rightarrow> None)"
| "place_of _ st = None"

text \<open>
  Statements. A statement ends normally, returns a value, or panics (\<^term>\<open>None\<close>).
\<close>

type_synonym exec_result = "(val option \<times> state) option"

fun seq :: "(state \<Rightarrow> exec_result) list \<Rightarrow> state \<Rightarrow> exec_result" where
  "seq [] st = Some (None, st)"
| "seq (s # ss) st =
     (case s st of
        None \<Rightarrow> None
      | Some (Some v, st') \<Rightarrow> Some (Some v, st')
      | Some (None, st') \<Rightarrow> seq ss st')"

fun for_each :: "string \<Rightarrow> (state \<Rightarrow> exec_result) \<Rightarrow> nat list \<Rightarrow> state \<Rightarrow> exec_result" where
  "for_each i blk [] st = Some (None, st)"
| "for_each i blk (k # ks) st =
     (case blk (st\<lparr>locals := (locals st)(i \<mapsto> VInt (int k))\<rparr>) of
        None \<Rightarrow> None
      | Some (Some v, st') \<Rightarrow> Some (Some v, st')
      | Some (None, st') \<Rightarrow> for_each i blk ks st')"

primrec exec :: "stmt \<Rightarrow> state \<Rightarrow> exec_result" where
  "exec (SDefine x e) st =
     (case eval e st of
        None \<Rightarrow> None
      | Some (v, st') \<Rightarrow> Some (None, st'\<lparr>locals := (locals st')(x \<mapsto> v)\<rparr>))"
| "exec (SAssign lhs rhs) st =
     (case place_of lhs st of
        None \<Rightarrow> None
      | Some (pl, st') \<Rightarrow>
          (case eval rhs st' of
             None \<Rightarrow> None
           | Some (v, st'') \<Rightarrow>
               (case write_place st'' pl v of None \<Rightarrow> None | Some st3 \<Rightarrow> Some (None, st3))))"
| "exec (SForRange i e blk) st =
     (case eval e st of
        Some (VSlice b n, st') \<Rightarrow>
          (case for_each i (seq (map exec blk)) [0..<n] st' of
             None \<Rightarrow> None
           | Some (r, st'') \<Rightarrow> Some (r, st''\<lparr>locals := (locals st'')(i := locals st' i)\<rparr>))
      | Some (VNil, st') \<Rightarrow> Some (None, st')
      | _ \<Rightarrow> None)"
| "exec (SReturn e) st =
     (case eval e st of None \<Rightarrow> None | Some (v, st') \<Rightarrow> Some (Some v, st'))"

text \<open>
  Calling a written method on a receiver with arguments, in a store: the result is the
  returned value, if any, and the store after the call.
\<close>

definition call_method :: "code \<Rightarrow> val \<Rightarrow> val list \<Rightarrow> val list \<Rightarrow> (val option \<times> val list) option" where
  "call_method m recv args h =
     (case m of
        Commentf txt \<Rightarrow> None
      | Method r rt name ps res blk \<Rightarrow>
          if length args \<noteq> length ps then None
          else (case seq (map exec blk)
                   \<lparr>locals = (map_of (zip (map fst ps) args))(r \<mapsto> recv), heap = h\<rparr> of
                  None \<Rightarrow> None
                | Some (v, st) \<Rightarrow> Some (v, heap st)))"



text \<open>\<^verbatim>\<open>*ptr = v\<close>: storing a value through a pointer.\<close>

definition store_through :: "val \<Rightarrow> val \<Rightarrow> val list \<Rightarrow> val list option" where
  "store_through ptr v h =
     (case ptr of
        VPtr a p \<Rightarrow> map_option heap (write_place \<lparr>locals = Map.empty, heap = h\<rparr> (PHeap a p) v)
      | _ \<Rightarrow> None)"

text \<open>\<^verbatim>\<open>l.Items[k]\<close>: the element of the receiver's \<^verbatim>\<open>Items\<close> at an index.\<close>

definition item_at :: "val \<Rightarrow> nat \<Rightarrow> val list \<Rightarrow> val option" where
  "item_at recv k h =
     map_option fst
       (eval (EIndex (EDot (EId ''l'') ''Items'') (EId ''k''))
          \<lparr>locals = [''l'' \<mapsto> recv, ''k'' \<mapsto> VInt (int k)], heap = h\<rparr>)"

section \<open>Example objects\<close>

definition plain_object :: object where
  "plain_object = \<lparr>Name = ''Widget'', Type = Struct [], MethodSet = []\<rparr>"

definition widget_methods :: object where
  "widget_methods = \<lparr>Name = ''Widget'', Type = Struct [],
     MethodSet = [\<lparr>fn_Name = ''GetActive'', fn_Pos = 10\<rparr>,
                  \<lparr>fn_Name = ''GetCondition'', fn_Pos = 70\<rparr>,
                  \<lparr>fn_Name = ''SetActive'', fn_Pos = 20\<rparr>]\<rparr>"

text \<open>Positions below 50 lie in the generated file, the others in a hand-written one.\<close>

definition two_files :: FileSet where
  "two_files pos = (if pos < 50 then ''zz_generated.managed.go'' else ''widget.go'')"

definition marked_comments :: comments where
  "marked_comments = \<lparr>For = (\<lambda>ob. ''doc''), Before = (\<lambda>ob. ''before'')\<rparr>"

definition table_parser :: parser where
  "table_parser txt =
     (if txt = ''doc'' then [''a'' \<mapsto> [''x'', ''y'']]
      else if txt = ''before'' then [''a'' \<mapsto> [''z''], ''b'' \<mapsto> [''x'']]
      else Map.empty)"

definition example_shapes :: shapes where
  "example_shapes =
     \<lparr>IsTypeMeta = (\<lambda>f. fname f = ''TypeMeta'' \<and> tref f = ''metav1.TypeMeta''),
      IsObjectMeta = (\<lambda>f. fname f = ''ObjectMeta'' \<and> tref f = ''metav1.ObjectMeta''),
      IsResourceSpec = (\<lambda>f. fname f = ''ResourceSpec'' \<and> tref f = ''nddv1.ResourceSpec''),
      IsResourceStatus = (\<lambda>f. fname f = ''ResourceStatus'' \<and> tref f = ''nddv1.ResourceStatus'')\<rparr>"

text \<open>
  \<^verbatim>\<open>type Widget struct { metav1.TypeMeta; metav1.ObjectMeta; Spec WidgetSpec; Status WidgetStatus }\<close>
  with \<^verbatim>\<open>nddv1.ResourceSpec\<close> embedded in \<^verbatim>\<open>WidgetSpec\<close> and
  \<^verbatim>\<open>nddv1.ResourceStatus\<close> embedded in \<^verbatim>\<open>WidgetStatus\<close>.
\<close>

definition widget :: object where
  "widget = \<lparr>Name = ''Widget'',
     Type = Struct
       [Field ''TypeMeta'' ''metav1.TypeMeta'' True Opaque,
        Field ''ObjectMeta'' ''metav1.ObjectMeta'' True Opaque,
        Field ''Spec'' ''WidgetSpec'' False
          (Struct [Field ''ResourceSpec'' ''nddv1.ResourceSpec'' True Opaque,
                   Field ''Size'' ''int'' False Opaque]),
        Field ''Status'' ''WidgetStatus'' False
          (Struct [Field ''ResourceStatus'' ''nddv1.ResourceStatus'' True Opaque])],
     MethodSet = []\<rparr>"

text \<open>
  A comment source that attaches one and the same text to every object, and a parser that
  knows two marker lines.
\<close>

definition one_comment :: "string \<Rightarrow> comments" where
  "one_comment txt = \<lparr>For = (\<lambda>ob. txt), Before = (\<lambda>ob. [])\<rparr>"

definition comment_before :: "string \<Rightarrow> comments" where
  "comment_before txt = \<lparr>For = (\<lambda>ob. []), Before = (\<lambda>ob. txt)\<rparr>"

definition marker_lines :: parser where
  "marker_lines txt =
     (if txt = ''+generate:methods=false'' then [''generate:methods'' \<mapsto> [''false'']]
      else if txt = ''+ndd:generate:methods=false'' then [''ndd:generate:methods'' \<mapsto> [''false'']]
      else if txt = ''+ndd:generate:methods=true'' then [''ndd:generate:methods'' \<mapsto> [''true'']]
      else Map.empty)"
definition pkg_a :: package where
  "pkg_a = \<lparr>PkgPath = ''example.org/apis/a'', GoFiles = [''/src/apis/a/types.go''], Errors = []\<rparr>"

definition pkg_b :: package where
  "pkg_b = \<lparr>PkgPath = ''example.org/apis/b'', GoFiles = [''/src/apis/b/types.go''], Errors = []\<rparr>"

text \<open>Writing the managed list methods of the first package fails, all else succeeds.\<close>

definition list_of_a_fails :: "calls \<Rightarrow> category \<Rightarrow> package \<Rightarrow> error option" where
  "list_of_a_fails log c p =
     (if c = CatManagedList \<and> PkgPath p = ''example.org/apis/a''
      then Some (Err ''permission denied'') else None)"

definition item :: "bool \<Rightarrow> val" where
  "item b = VStruct [(''Spec'', VStruct [(''Active'', VBool b), (''TargetConfigReference'', VNil)])]"

text \<open>
  A store with a list at address 0 whose \<^verbatim>\<open>Items\<close> are the three cells at the
  addresses 1, 2 and 3.
\<close>

definition list_heap :: "val list" where
  "list_heap = [VStruct [(''TypeMeta'', VNil), (''Items'', VSlice 1 3)],
                item False, item False, item True]"

section \<open>Properties of the matchers\<close>

lemma AllOf_simps:
  "AllOf [] ob = True"
  "AllOf (fn # match) ob = (if \<not> fn ob then False else AllOf match ob)"
  by (simp_all add: AllOf_def split: prod.splits)

lemma AnyOf_simps:
  "AnyOf [] ob = False"
  "AnyOf (fn # match) ob = (if fn ob then True else AnyOf match ob)"
  by (simp_all add: AnyOf_def split: prod.splits)

lemma AllOf_calls_simps:
  "AllOf_calls [] ob = 0"
  "AllOf_calls (fn # match) ob = (if \<not> fn ob then 1 else Suc (AllOf_calls match ob))"
  by (simp_all add: AllOf_calls_def split: prod.splits)

lemma AnyOf_calls_simps:
  "AnyOf_calls [] ob = 0"
  "AnyOf_calls (fn # match) ob = (if fn ob then 1 else Suc (AnyOf_calls match ob))"
  by (simp_all add: AnyOf_calls_def split: prod.splits)

lemma AllOf_iff: "AllOf match ob \<longleftrightarrow> (\<forall>fn \<in> set match. fn ob)"
  by (induction match) (simp_all add: AllOf_simps)

lemma AnyOf_iff: "AnyOf match ob \<longleftrightarrow> (\<exists>fn \<in> set match. fn ob)"
  by (induction match) (simp_all add: AnyOf_simps)

lemma AllOf_calls_eq:
  "AllOf_calls match ob =
     (if AllOf match ob then length match
      else Suc (length (takeWhile (\<lambda>fn. fn ob) match)))"
  by (induction match) (simp_all add: AllOf_simps AllOf_calls_simps)

lemma AnyOf_calls_eq:
  "AnyOf_calls match ob =
     (if AnyOf match ob then Suc (length (takeWhile (\<lambda>fn. \<not> fn ob) match))
      else length match)"
  by (induction match) (simp_all add: AnyOf_simps AnyOf_calls_simps)

lemma has_value_iff: "has_value v vals \<longleftrightarrow> v \<in> set vals"
  by (induction vals) auto

text \<open>
  Claim C10. On every object, \<^verbatim>\<open>AllOf\<close> of no matchers is true and \<^verbatim>\<open>AnyOf\<close> of
  no matchers is false. In general \<^verbatim>\<open>AllOf\<close> is the conjunction and \<^verbatim>\<open>AnyOf\<close> the
  disjunction of the matchers on the object, and the matchers are called from the left up
  to and including the first one that returns false (for \<^verbatim>\<open>AllOf\<close>) or true (for
  \<^verbatim>\<open>AnyOf\<close>): the number of calls is the length of the longest prefix that does not
  decide the result, plus one when some matcher decides it.
\<close>

theorem AllOf_AnyOf_short_circuit:
  "AllOf [] ob = True \<and> AnyOf [] ob = False
   \<and> (AllOf match ob \<longleftrightarrow> (\<forall>fn \<in> set match. fn ob))
   \<and> (AnyOf match ob \<longleftrightarrow> (\<exists>fn \<in> set match. fn ob))
   \<and> AllOf_calls match ob =
       (if \<forall>fn \<in> set match. fn ob then length match
        else Suc (length (takeWhile (\<lambda>fn. fn ob) match)))
   \<and> AnyOf_calls match ob =
       (if \<exists>fn \<in> set match. fn ob then Suc (length (takeWhile (\<lambda>fn. \<not> fn ob) match))
        else length match)"
  using AllOf_calls_eq [of match ob] AnyOf_calls_eq [of match ob]
  by (simp add: AllOf_simps AnyOf_simps AllOf_iff AnyOf_iff)

theorem AllOf_AnyOf_short_circuit_witness:
  "\<not> AllOf [\<lambda>ob. Name ob = ''Widget'', \<lambda>ob. False, \<lambda>ob. True] plain_object
   \<and> AllOf_calls [\<lambda>ob. Name ob = ''Widget'', \<lambda>ob. False, \<lambda>ob. True] plain_object = 2
   \<and> AnyOf [\<lambda>ob. Name ob = ''Widget'', \<lambda>ob. False, \<lambda>ob. True] plain_object
   \<and> AnyOf_calls [\<lambda>ob. Name ob = ''Widget'', \<lambda>ob. False, \<lambda>ob. True] plain_object = 1"
  using AllOf_AnyOf_short_circuit
    [of plain_object "[\<lambda>ob. Name ob = ''Widget'', \<lambda>ob. False, \<lambda>ob. True]"]
  by (simp add: plain_object_def)

text \<open>
  Claim C5. \<^verbatim>\<open>HasMarker(c, k, v)(o)\<close> is true exactly when \<^verbatim>\<open>v\<close> is among the
  marker values parsed for \<^verbatim>\<open>k\<close> from the comment attached to \<^verbatim>\<open>o\<close> or from the
  comment immediately before \<^verbatim>\<open>o\<close>. The attached comment is read first, and when it
  has the value the comment before is not read at all. \<^verbatim>\<open>DoesNotHaveMarker\<close> is the
  negation of \<^verbatim>\<open>HasMarker\<close>.
\<close>

theorem HasMarker_spec:
  "(HasMarker P c k v ob \<longleftrightarrow>
      v \<in> set (markers_at (P (For c ob)) k) \<or> v \<in> set (markers_at (P (Before c ob)) k))
   \<and> HasMarker_reads P c k v ob =
       (if v \<in> set (markers_at (P (For c ob)) k) then [SrcFor] else [SrcFor, SrcBefore])
   \<and> DoesNotHaveMarker P c k v ob = (\<not> HasMarker P c k v ob)"
  by (simp add: HasMarker_def HasMarker_reads_def HasMarker_run_def DoesNotHaveMarker_def
      has_value_iff)

theorem HasMarker_spec_witness:
  "HasMarker table_parser marked_comments ''a'' ''y'' plain_object
   \<and> HasMarker_reads table_parser marked_comments ''a'' ''y'' plain_object = [SrcFor]
   \<and> HasMarker table_parser marked_comments ''a'' ''z'' plain_object
   \<and> HasMarker_reads table_parser marked_comments ''a'' ''z'' plain_object = [SrcFor, SrcBefore]
   \<and> \<not> HasMarker table_parser marked_comments ''b'' ''y'' plain_object
   \<and> DoesNotHaveMarker table_parser marked_comments ''b'' ''y'' plain_object
   \<and> \<not> DoesNotHaveMarker table_parser marked_comments ''a'' ''y'' plain_object"
  using HasMarker_spec [of table_parser marked_comments "''a''" "''y''" plain_object]
    HasMarker_spec [of table_parser marked_comments "''a''" "''z''" plain_object]
    HasMarker_spec [of table_parser marked_comments "''b''" "''y''" plain_object]
  by (simp add: table_parser_def marked_comments_def markers_at_def)

lemma DefinedOutside_loop_iff:
  "DefinedOutside_loop fs filename s name \<longleftrightarrow>
     (\<exists>mo \<in> set s. fn_Name mo = name \<and> fs (fn_Pos mo) \<noteq> filename)"
  by (induction s) auto

text \<open>
  Claim C3. The collision filter \<^verbatim>\<open>DefinedOutside(fs, d)(o, n)\<close> is true exactly when
  the method set of the pointer to the type of \<^verbatim>\<open>o\<close> has a method named \<^verbatim>\<open>n\<close>
  whose position lies in a file other than \<^verbatim>\<open>d\<close>. In particular, when every method
  named \<^verbatim>\<open>n\<close> is defined in \<^verbatim>\<open>d\<close> itself, the filter is false, so the method is
  generated again.
\<close>

theorem DefinedOutside_spec:
  "(DefinedOutside fs d ob n \<longleftrightarrow>
      (\<exists>mo \<in> set (MethodSet ob). fn_Name mo = n \<and> fs (fn_Pos mo) \<noteq> d))
   \<and> ((\<forall>mo \<in> set (MethodSet ob). fn_Name mo = n \<longrightarrow> fs (fn_Pos mo) = d)
        \<longrightarrow> \<not> DefinedOutside fs d ob n)"
  by (auto simp: DefinedOutside_def DefinedOutside_loop_iff)

theorem DefinedOutside_spec_witness:
  "\<not> DefinedOutside two_files ''zz_generated.managed.go'' widget_methods ''GetActive''
   \<and> DefinedOutside two_files ''zz_generated.managed.go'' widget_methods ''GetCondition''
   \<and> \<not> DefinedOutside two_files ''zz_generated.managed.go'' widget_methods ''GetItems''"
  using DefinedOutside_spec [of two_files "''zz_generated.managed.go''" widget_methods "''GetActive''"]
    DefinedOutside_spec [of two_files "''zz_generated.managed.go''" widget_methods "''GetCondition''"]
    DefinedOutside_spec [of two_files "''zz_generated.managed.go''" widget_methods "''GetItems''"]
  by (simp add: widget_methods_def two_files_def)

section \<open>Properties of the shape matcher\<close>

lemma HasFieldThat_single: "HasFieldThat [p] f \<longleftrightarrow> (\<exists>g \<in> set (nested f). p g)"
  by (auto simp: HasFieldThat_def nested_def list_ex_iff split: option.splits)

lemma Has_iff: "Has ob ms \<longleftrightarrow> (\<forall>m \<in> set ms. \<exists>f \<in> set (direct_fields ob). m f)"
  by (simp add: Has_def list_all_iff list_ex_iff)

lemma Managed_iff:
  "Managed V ob \<longleftrightarrow>
     (\<exists>f \<in> set (direct_fields ob). IsTypeMeta V f \<and> embedded f)
   \<and> (\<exists>f \<in> set (direct_fields ob). IsObjectMeta V f \<and> embedded f)
   \<and> (\<exists>f \<in> set (direct_fields ob). fname f = ''Spec''
        \<and> (\<exists>g \<in> set (nested f). IsResourceSpec V g \<and> embedded g))
   \<and> (\<exists>f \<in> set (direct_fields ob). fname f = ''Status''
        \<and> (\<exists>g \<in> set (nested f). IsResourceStatus V g \<and> embedded g))"
  by (simp add: Managed_def Has_iff And_def IsEmbedded_def IsSpec_def IsStatus_def
      NamedField_def NameSpec_def NameStatus_def HasFieldThat_single)


lemma direct_fields_with_fields:
  "h [] = [] \<Longrightarrow> direct_fields (with_fields h ob) = h (direct_fields ob)"
  by (simp add: direct_fields_def with_fields_def split: gotype.splits)

lemma nested_with_nested: "h [] = [] \<Longrightarrow> nested (with_nested h f) = h (nested f)"
  by (induction h f rule: with_nested.induct) (simp_all add: nested_def)

lemma fname_with_nested: "fname (with_nested h f) = fname f"
  by (induction h f rule: with_nested.induct) simp_all

lemma unembed_sel: "embedded (unembed f) = False" "fname (unembed f) = fname f"
  by (cases f; simp)+

lemma remove_fields_none: "\<not> (\<exists>f \<in> set (remove_fields p fs). p f)"
  by (simp add: remove_fields_def)

lemma unembed_fields_none: "\<not> (\<exists>f \<in> set (unembed_fields p fs). p f \<and> embedded f)"
  by (auto simp: unembed_fields_def unembed_sel)

lemma in_named_none:
  assumes "h [] = []" and "\<And>fs. \<not> (\<exists>g \<in> set (h fs). q g)"
  shows "\<not> (\<exists>f \<in> set (in_named name h fs). fname f = name \<and> (\<exists>g \<in> set (nested f). q g))"
proof
  assume "\<exists>f \<in> set (in_named name h fs). fname f = name \<and> (\<exists>g \<in> set (nested f). q g)"
  then obtain f g where f: "f \<in> set (in_named name h fs)" "fname f = name"
    and g: "g \<in> set (nested f)" "q g" by blast
  from f(1) obtain f0 where f0: "f0 \<in> set fs"
    "f = (if fname f0 = name then with_nested h f0 else f0)"
    by (auto simp: in_named_def)
  from f0(2) f(2) have "f = with_nested h f0"
    by (simp add: fname_with_nested split: if_splits)
  then have "nested f = h (nested f0)"
    by (simp add: nested_with_nested assms(1))
  with g assms(2) [of "nested f0"] show False by auto
qed

lemma edits_Nil:
  "remove_fields p [] = []" "unembed_fields p [] = []" "in_named name h [] = []"
  by (simp_all add: remove_fields_def unembed_fields_def in_named_def)

lemma direct_fields_edit:
  "direct_fields (with_fields (remove_fields p) ob) = remove_fields p (direct_fields ob)"
  "direct_fields (with_fields (unembed_fields p) ob) = unembed_fields p (direct_fields ob)"
  "direct_fields (with_fields (in_named name h) ob) = in_named name h (direct_fields ob)"
  by (simp_all add: direct_fields_with_fields edits_Nil)

lemma in_named_remove_none:
  "\<not> (\<exists>f \<in> set (in_named name (remove_fields q) fs).
        fname f = name \<and> (\<exists>g \<in> set (nested f). q g))"
  by (rule in_named_none) (simp_all add: edits_Nil remove_fields_none)

lemma in_named_unembed_none:
  "\<not> (\<exists>f \<in> set (in_named name (unembed_fields p) fs).
        fname f = name \<and> (\<exists>g \<in> set (nested f). p g \<and> embedded g))"
  by (rule in_named_none [where q = "\<lambda>g. p g \<and> embedded g"])
     (simp_all add: edits_Nil unembed_fields_none)

text \<open>
  Claim C1. \<^verbatim>\<open>Managed\<close> is true of a declaration exactly when it has an embedded
  TypeMeta-shaped field, an embedded ObjectMeta-shaped field, a field named "Spec" with an
  embedded resource-spec-shaped field among its nested fields, and a field named "Status"
  with an embedded resource-status-shaped field among its nested fields. Taking away any
  one of these makes it false: removing the fields that meet one of the four
  requirements (in a Go struct, whose field names are distinct, that is the one required
  field), removing the required nested field of "Spec" or of "Status", or clearing the
  embedded flag of the required field or nested field.
\<close>

theorem Managed_shape:
  "(Managed V ob \<longleftrightarrow>
      (\<exists>f \<in> set (direct_fields ob). IsTypeMeta V f \<and> embedded f)
    \<and> (\<exists>f \<in> set (direct_fields ob). IsObjectMeta V f \<and> embedded f)
    \<and> (\<exists>f \<in> set (direct_fields ob). fname f = ''Spec''
         \<and> (\<exists>g \<in> set (nested f). IsResourceSpec V g \<and> embedded g))
    \<and> (\<exists>f \<in> set (direct_fields ob). fname f = ''Status''
         \<and> (\<exists>g \<in> set (nested f). IsResourceStatus V g \<and> embedded g)))
   \<and> \<not> Managed V (with_fields (remove_fields (\<lambda>f. IsTypeMeta V f \<and> embedded f)) ob)
   \<and> \<not> Managed V (with_fields (unembed_fields (IsTypeMeta V)) ob)
   \<and> \<not> Managed V (with_fields (remove_fields (\<lambda>f. IsObjectMeta V f \<and> embedded f)) ob)
   \<and> \<not> Managed V (with_fields (unembed_fields (IsObjectMeta V)) ob)
   \<and> \<not> Managed V (with_fields (remove_fields (\<lambda>f. fname f = ''Spec'')) ob)
   \<and> \<not> Managed V (with_fields
          (in_named ''Spec'' (remove_fields (\<lambda>g. IsResourceSpec V g \<and> embedded g))) ob)
   \<and> \<not> Managed V (with_fields (in_named ''Spec'' (unembed_fields (IsResourceSpec V))) ob)
   \<and> \<not> Managed V (with_fields (remove_fields (\<lambda>f. fname f = ''Status'')) ob)
   \<and> \<not> Managed V (with_fields
          (in_named ''Status'' (remove_fields (\<lambda>g. IsResourceStatus V g \<and> embedded g))) ob)
   \<and> \<not> Managed V (with_fields (in_named ''Status'' (unembed_fields (IsResourceStatus V))) ob)"
proof -
  let ?tm = "\<lambda>f. IsTypeMeta V f \<and> embedded f"
  let ?om = "\<lambda>f. IsObjectMeta V f \<and> embedded f"
  let ?rs = "\<lambda>g. IsResourceSpec V g \<and> embedded g"
  let ?rt = "\<lambda>g. IsResourceStatus V g \<and> embedded g"
  let ?fs = "direct_fields ob"
  have r1: "\<not> Managed V (with_fields (remove_fields ?tm) ob)"
    using remove_fields_none [of ?tm ?fs]
    by (simp only: Managed_iff direct_fields_edit) blast
  have r2: "\<not> Managed V (with_fields (unembed_fields (IsTypeMeta V)) ob)"
    using unembed_fields_none [of "IsTypeMeta V" ?fs]
    by (simp only: Managed_iff direct_fields_edit) blast
  have r3: "\<not> Managed V (with_fields (remove_fields ?om) ob)"
    using remove_fields_none [of ?om ?fs]
    by (simp only: Managed_iff direct_fields_edit) blast
  have r4: "\<not> Managed V (with_fields (unembed_fields (IsObjectMeta V)) ob)"
    using unembed_fields_none [of "IsObjectMeta V" ?fs]
    by (simp only: Managed_iff direct_fields_edit) blast
  have r5: "\<not> Managed V (with_fields (remove_fields (\<lambda>f. fname f = ''Spec'')) ob)"
    using remove_fields_none [of "\<lambda>f. fname f = ''Spec''" ?fs]
    by (simp only: Managed_iff direct_fields_edit) blast
  have r6: "\<not> Managed V (with_fields (in_named ''Spec'' (remove_fields ?rs)) ob)"
    using in_named_remove_none [of "''Spec''" ?rs ?fs]
    by (simp only: Managed_iff direct_fields_edit) blast
  have r7: "\<not> Managed V (with_fields (in_named ''Spec'' (unembed_fields (IsResourceSpec V))) ob)"
    using in_named_unembed_none [of "''Spec''" "IsResourceSpec V" ?fs]
    by (simp only: Managed_iff direct_fields_edit) blast
  have r8: "\<not> Managed V (with_fields (remove_fields (\<lambda>f. fname f = ''Status'')) ob)"
    using remove_fields_none [of "\<lambda>f. fname f = ''Status''" ?fs]
    by (simp only: Managed_iff direct_fields_edit) blast
  have r9: "\<not> Managed V (with_fields (in_named ''Status'' (remove_fields ?rt)) ob)"
    using in_named_remove_none [of "''Status''" ?rt ?fs]
    by (simp only: Managed_iff direct_fields_edit) blast
  have r10: "\<not> Managed V (with_fields (in_named ''Status'' (unembed_fields (IsResourceStatus V))) ob)"
    using in_named_unembed_none [of "''Status''" "IsResourceStatus V" ?fs]
    by (simp only: Managed_iff direct_fields_edit) blast
  show ?thesis
    by (intro conjI r1 r2 r3 r4 r5 r6 r7 r8 r9 r10 Managed_iff)
qed




lemma direct_fields_widget:
  "direct_fields widget =
     [Field ''TypeMeta'' ''metav1.TypeMeta'' True Opaque,
      Field ''ObjectMeta'' ''metav1.ObjectMeta'' True Opaque,
      Field ''Spec'' ''WidgetSpec'' False
        (Struct [Field ''ResourceSpec'' ''nddv1.ResourceSpec'' True Opaque,
                 Field ''Size'' ''int'' False Opaque]),
      Field ''Status'' ''WidgetStatus'' False
        (Struct [Field ''ResourceStatus'' ''nddv1.ResourceStatus'' True Opaque])]"
  by (simp add: direct_fields_def widget_def)

lemma Managed_widget: "Managed example_shapes widget"
  by (simp add: Managed_def Has_def And_def IsEmbedded_def IsSpec_def IsStatus_def
      NamedField_def NameSpec_def NameStatus_def HasFieldThat_def direct_fields_widget
      example_shapes_def)

theorem Managed_shape_witness:
  "Managed example_shapes widget
   \<and> \<not> Managed example_shapes
        (with_fields (remove_fields (\<lambda>f. IsTypeMeta example_shapes f \<and> embedded f)) widget)
   \<and> \<not> Managed example_shapes
        (with_fields (in_named ''Spec'' (unembed_fields (IsResourceSpec example_shapes))) widget)
   \<and> direct_fields (with_fields (remove_fields (\<lambda>f. IsTypeMeta example_shapes f \<and> embedded f)) widget)
       = [Field ''ObjectMeta'' ''metav1.ObjectMeta'' True Opaque,
          Field ''Spec'' ''WidgetSpec'' False
            (Struct [Field ''ResourceSpec'' ''nddv1.ResourceSpec'' True Opaque,
                     Field ''Size'' ''int'' False Opaque]),
          Field ''Status'' ''WidgetStatus'' False
            (Struct [Field ''ResourceStatus'' ''nddv1.ResourceStatus'' True Opaque])]
   \<and> direct_fields (with_fields (in_named ''Spec'' (unembed_fields (IsResourceSpec example_shapes))) widget)
       = [Field ''TypeMeta'' ''metav1.TypeMeta'' True Opaque,
          Field ''ObjectMeta'' ''metav1.ObjectMeta'' True Opaque,
          Field ''Spec'' ''WidgetSpec'' False
            (Struct [Field ''ResourceSpec'' ''nddv1.ResourceSpec'' False Opaque,
                     Field ''Size'' ''int'' False Opaque]),
          Field ''Status'' ''WidgetStatus'' False
            (Struct [Field ''ResourceStatus'' ''nddv1.ResourceStatus'' True Opaque])]"
proof -
  note M = Managed_shape [of example_shapes widget]
  have n1: "\<not> Managed example_shapes
        (with_fields (remove_fields (\<lambda>f. IsTypeMeta example_shapes f \<and> embedded f)) widget)"
    using M by (elim conjE)
  have n2: "\<not> Managed example_shapes
        (with_fields (in_named ''Spec'' (unembed_fields (IsResourceSpec example_shapes))) widget)"
    using M by (elim conjE)
  have d1: "direct_fields (with_fields (remove_fields (\<lambda>f. IsTypeMeta example_shapes f \<and> embedded f)) widget)
       = [Field ''ObjectMeta'' ''metav1.ObjectMeta'' True Opaque,
          Field ''Spec'' ''WidgetSpec'' False
            (Struct [Field ''ResourceSpec'' ''nddv1.ResourceSpec'' True Opaque,
                     Field ''Size'' ''int'' False Opaque]),
          Field ''Status'' ''WidgetStatus'' False
            (Struct [Field ''ResourceStatus'' ''nddv1.ResourceStatus'' True Opaque])]"
    by (simp add: direct_fields_edit direct_fields_widget remove_fields_def example_shapes_def)
  have d2: "direct_fields (with_fields (in_named ''Spec'' (unembed_fields (IsResourceSpec example_shapes))) widget)
       = [Field ''TypeMeta'' ''metav1.TypeMeta'' True Opaque,
          Field ''ObjectMeta'' ''metav1.ObjectMeta'' True Opaque,
          Field ''Spec'' ''WidgetSpec'' False
            (Struct [Field ''ResourceSpec'' ''nddv1.ResourceSpec'' False Opaque,
                     Field ''Size'' ''int'' False Opaque]),
          Field ''Status'' ''WidgetStatus'' False
            (Struct [Field ''ResourceStatus'' ''nddv1.ResourceStatus'' True Opaque])]"
    by (simp add: direct_fields_edit direct_fields_widget in_named_def unembed_fields_def
        example_shapes_def)
  show ?thesis
    by (intro conjI Managed_widget n1 n2 d1 d2)
qed

section \<open>Properties of method sets\<close>

lemma Write_loop_eq:
  "set names \<subseteq> dom s \<Longrightarrow>
   Write_loop s ob mf names (f, calls) =
     Some (fold (\<lambda>name f. the (s name) f ob) (filter (\<lambda>name. \<not> mf ob name) names) f,
           calls @ filter (\<lambda>name. \<not> mf ob name) names)"
proof (induction names arbitrary: f calls)
  case Nil
  then show ?case by simp
next
  case (Cons name names)
  then obtain g where g: "s name = Some g" by auto
  from Cons.prems have sub: "set names \<subseteq> dom s" by simp
  show ?case
  proof (cases "mf ob name")
    case True
    then show ?thesis using Cons.IH [OF sub] by simp
  next
    case False
    then show ?thesis using Cons.IH [OF sub, of "g f ob" "calls @ [name]"] g by simp
  qed
qed

lemma sort_keys_eq:
  assumes "distinct keys" "set keys = dom s"
  shows "filter P (sort keys) = sorted_list_of_set {name \<in> dom s. P name}"
proof -
  have fin: "finite (dom s)" using assms(2) [symmetric] by simp
  have "sorted (filter P (sort keys))" by (simp add: sorted_wrt_filter)
  moreover have "distinct (filter P (sort keys))" using assms(1) by simp
  moreover have "set (filter P (sort keys)) = {name \<in> dom s. P name}"
    using assms(2) by auto
  moreover have "finite {name \<in> dom s. P name}" using fin by simp
  ultimately show ?thesis
    by (metis (no_types, lifting) sorted_list_of_set.idem_if_sorted_distinct)
qed

lemma Write_run_eq:
  assumes "distinct keys" "set keys = dom s"
  shows "Write_run keys s f ob mf =
     Some (fold (\<lambda>name f. the (s name) f ob)
             (sorted_list_of_set {name \<in> dom s. \<not> mf ob name}) f,
           sorted_list_of_set {name \<in> dom s. \<not> mf ob name})"
proof -
  have "set (sort keys) \<subseteq> dom s" using assms(2) by simp
  from Write_loop_eq [OF this, of ob mf f "[]"]
  show ?thesis
    unfolding Write_run_def using sort_keys_eq [OF assms, of "\<lambda>name. \<not> mf ob name"] by simp
qed

text \<open>
  Claim C2. Whatever the order in which the map gives its keys, \<^verbatim>\<open>Set.Write\<close> calls
  the generators in ascending lexicographic order of their names: the sequence of calls is
  the sorted, duplicate-free list of the names of the set that the filter does not hold
  for. So every such name has its generator called exactly once, every name the filter
  holds for is skipped, and the file that results is the one obtained by applying these
  generators in that order; neither depends on the order of the keys.
\<close>

theorem Write_sorted_once:
  assumes "distinct keys" and "set keys = dom s"
  shows "\<exists>calls.
     Write_run keys s f ob mf = Some (fold (\<lambda>name f. the (s name) f ob) calls f, calls)
     \<and> Write keys s f ob mf = Some (fold (\<lambda>name f. the (s name) f ob) calls f)
     \<and> calls = sorted_list_of_set {name \<in> dom s. \<not> mf ob name}
     \<and> sorted calls \<and> distinct calls
     \<and> set calls = {name \<in> dom s. \<not> mf ob name}"
proof -
  have "finite (dom s)" using assms(2) [symmetric] by simp
  then have "finite {name \<in> dom s. \<not> mf ob name}" by simp
  then show ?thesis
    using Write_run_eq [OF assms, of f ob mf] by (simp add: Write_def)
qed

theorem Write_sorted_once_witness:
  "Write_run [''Zeta'', ''Alpha'', ''Mid'', ''Beta'']
     [''Zeta'' \<mapsto> emit ''z'', ''Alpha'' \<mapsto> emit ''a'', ''Mid'' \<mapsto> emit ''m'', ''Beta'' \<mapsto> emit ''b'']
     [] plain_object (\<lambda>ob name. name = ''Beta'')
   = Some ([''a'', ''m'', ''z''], [''Alpha'', ''Mid'', ''Zeta''])
   \<and> Write_run [''Mid'', ''Beta'', ''Zeta'', ''Alpha'']
     [''Zeta'' \<mapsto> emit ''z'', ''Alpha'' \<mapsto> emit ''a'', ''Mid'' \<mapsto> emit ''m'', ''Beta'' \<mapsto> emit ''b'']
     [] plain_object (\<lambda>ob name. name = ''Beta'')
   = Some ([''a'', ''m'', ''z''], [''Alpha'', ''Mid'', ''Zeta''])"
proof -
  let ?s = "[''Zeta'' \<mapsto> emit ''z'', ''Alpha'' \<mapsto> emit ''a'', ''Mid'' \<mapsto> emit ''m'',
             ''Beta'' \<mapsto> emit ''b'']"
  let ?mf = "\<lambda>(ob::object) name. name = ''Beta''"
  have d1: "distinct [''Zeta'', ''Alpha'', ''Mid'', ''Beta'']" by simp
  have d2: "distinct [''Mid'', ''Beta'', ''Zeta'', ''Alpha'']" by simp
  have k1: "set [''Zeta'', ''Alpha'', ''Mid'', ''Beta''] = dom ?s" by auto
  have k2: "set [''Mid'', ''Beta'', ''Zeta'', ''Alpha''] = dom ?s" by auto
  have L: "sorted_list_of_set {name \<in> dom ?s. \<not> ?mf plain_object name} =
      [''Alpha'', ''Mid'', ''Zeta'']"
  proof -
    have "{name \<in> dom ?s. \<not> ?mf plain_object name} = set [''Alpha'', ''Mid'', ''Zeta'']"
      by auto
    then show ?thesis
      by (simp only: sorted_list_of_set_sort_remdups)
         (simp add: less_eq_list_code less_list_code less_eq_char_def less_char_def)
  qed
  show ?thesis
    using Write_sorted_once [OF d1 k1, of "[]" plain_object ?mf]
      Write_sorted_once [OF d2 k2, of "[]" plain_object ?mf]
    unfolding L by (simp add: emit_def)
qed








section \<open>Properties of the category matcher\<close>

lemma category_matcher_iff:
  "category_matcher shape P c ob \<longleftrightarrow> shape ob \<and> \<not> HasMarker P c DisableMarker ''false'' ob"
  by (simp add: category_matcher_def AllOf_simps DoesNotHaveMarker_def)

lemma HasMarker_iff:
  "HasMarker P c k v ob \<longleftrightarrow>
     v \<in> set (markers_at (P (For c ob)) k) \<or> v \<in> set (markers_at (P (Before c ob)) k)"
  by (simp add: HasMarker_def HasMarker_run_def has_value_iff)

text \<open>
  Claim C4, as the code has it. The matcher of every generation category is the
  conjunction of the category's shape recogniser with \<^verbatim>\<open>DoesNotHaveMarker\<close> for the
  key \<^verbatim>\<open>ndd:generate:methods\<close> (the constant \<^verbatim>\<open>DisableMarker\<close>) and the value
  \<^verbatim>\<open>false\<close>: a declaration of the right shape is excluded exactly when one of its two
  comment sources has the value \<^verbatim>\<open>false\<close> for that key.
\<close>

theorem category_matcher_gate:
  "category_matcher shape P c ob
       = AllOf [shape, DoesNotHaveMarker P c ''ndd:generate:methods'' ''false''] ob
   \<and> GenerateManaged_matcher V P c ob
       = AllOf [Managed V, DoesNotHaveMarker P c ''ndd:generate:methods'' ''false''] ob
   \<and> (category_matcher shape P c ob \<longleftrightarrow>
        shape ob
        \<and> ''false'' \<notin> set (markers_at (P (For c ob)) ''ndd:generate:methods'')
        \<and> ''false'' \<notin> set (markers_at (P (Before c ob)) ''ndd:generate:methods''))"
  by (simp add: HasMarker_iff GenerateManaged_matcher_def category_matcher_def
      DisableMarker_def AllOf_simps DoesNotHaveMarker_def)

theorem category_matcher_gate_witness:
  "\<not> GenerateManaged_matcher example_shapes marker_lines
       (one_comment ''+ndd:generate:methods=false'') widget
   \<and> \<not> GenerateManaged_matcher example_shapes marker_lines
       (comment_before ''+ndd:generate:methods=false'') widget
   \<and> GenerateManaged_matcher example_shapes marker_lines
       (one_comment ''+ndd:generate:methods=true'') widget
   \<and> GenerateManaged_matcher example_shapes marker_lines (one_comment []) widget"
  using category_matcher_gate [of "Managed example_shapes" marker_lines
      "one_comment ''+ndd:generate:methods=false''" widget example_shapes]
    category_matcher_gate [of "Managed example_shapes" marker_lines
      "comment_before ''+ndd:generate:methods=false''" widget example_shapes]
    category_matcher_gate [of "Managed example_shapes" marker_lines
      "one_comment ''+ndd:generate:methods=true''" widget example_shapes]
    category_matcher_gate [of "Managed example_shapes" marker_lines
      "one_comment []" widget example_shapes]
    Managed_widget
  by (simp add: GenerateManaged_matcher_def category_matcher_def one_comment_def
      comment_before_def marker_lines_def markers_at_def AllOf_simps DoesNotHaveMarker_def
      HasMarker_iff DisableMarker_def)

text \<open>
  The claim as stated, with the key \<^verbatim>\<open>generate:methods\<close>, fails: a declaration of the
  Managed shape whose comment carries \<^verbatim>\<open>generate:methods=false\<close> has that marker, so
  the gate of the claim excludes it, and yet the matcher of the category accepts it.
\<close>

theorem category_matcher_key_counterexample:
  "Managed example_shapes widget
   \<and> HasMarker marker_lines (one_comment ''+generate:methods=false'')
       ''generate:methods'' ''false'' widget
   \<and> \<not> AllOf [Managed example_shapes,
         DoesNotHaveMarker marker_lines (one_comment ''+generate:methods=false'')
           ''generate:methods'' ''false''] widget
   \<and> GenerateManaged_matcher example_shapes marker_lines
       (one_comment ''+generate:methods=false'') widget"
  using Managed_widget
  by (simp add: GenerateManaged_matcher_def category_matcher_iff HasMarker_iff AllOf_simps
      DoesNotHaveMarker_def DisableMarker_def one_comment_def marker_lines_def markers_at_def)

section \<open>Properties of the command\<close>

lemma all_nil_append:
  "all_nil result log0 (xs @ ys) \<longleftrightarrow>
     all_nil result log0 xs \<and> all_nil result (log0 @ xs) ys"
  by (induction xs arbitrary: log0) simp_all

lemma all_nil_nth:
  "all_nil result log0 new \<Longrightarrow> i < length new \<Longrightarrow>
   result (log0 @ take i new) (fst (new ! i)) (snd (new ! i)) = None"
proof (induction new arbitrary: log0 i)
  case Nil
  then show ?case by simp
next
  case (Cons x xs)
  show ?case
  proof (cases i)
    case 0
    with Cons.prems show ?thesis by simp
  next
    case (Suc j)
    with Cons.prems have "all_nil result (log0 @ [x]) xs" "j < length xs" by simp_all
    from Cons.IH [OF this] Suc show ?thesis by simp
  qed
qed

lemma fail_fast_seq:
  assumes "all_nil result log0 new1" and "fail_fast result (log0 @ new1) r new2"
  shows "fail_fast result log0 r (new1 @ new2)"
proof -
  from assms(2) consider "all_nil result (log0 @ new1) new2"
    | pre c p e where "new2 = pre @ [(c, p)]" "all_nil result (log0 @ new1) pre"
        "result ((log0 @ new1) @ pre) c p = Some e" "r = Return (Some (category_failure c p e))"
    unfolding fail_fast_def by blast
  then show ?thesis
  proof cases
    case 1
    with assms(1) show ?thesis by (simp add: fail_fast_def all_nil_append)
  next
    case 2
    have "new1 @ new2 = (new1 @ pre) @ [(c, p)]" using 2(1) by simp
    moreover have "all_nil result log0 (new1 @ pre)"
      using assms(1) 2(2) by (simp add: all_nil_append)
    moreover have "result (log0 @ (new1 @ pre)) c p = Some e" using 2(3) by simp
    ultimately show ?thesis unfolding fail_fast_def using 2(4) by blast
  qed
qed

lemma generate_category_logging:
  "generate_category c msg (logging result) p log =
     (if GoFiles p = [] then (Panic, log)
      else (Return (Wrap (result log c p) msg), log @ [(c, p)]))"
  by (simp add: generate_category_def logging_def split: list.splits)

lemma run_generators_logged:
  "run_generators (logged result cats) pkg log0 = (r, log) \<Longrightarrow>
   \<exists>new. log = log0 @ new \<and> fail_fast result log0 r new
          \<and> (r = Return None \<longrightarrow> all_nil result log0 new)"
proof (induction cats arbitrary: log0)
  case Nil
  then show ?case by (simp add: logged_def fail_fast_def)
next
  case (Cons c cats)
  show ?case
  proof (cases "GoFiles pkg = []")
    case True
    with Cons.prems have "log = log0" "r = Panic"
      by (simp_all add: logged_def generate_category_logging)
    then show ?thesis by (simp add: fail_fast_def)
  next
    case False
    show ?thesis
    proof (cases "result log0 c pkg")
      case None
      with False Cons.prems
      have run: "run_generators (logged result cats) pkg (log0 @ [(c, pkg)]) = (r, log)"
        by (simp add: logged_def generate_category_logging Wrap_def)
      from Cons.IH [OF run] obtain new where new: "log = (log0 @ [(c, pkg)]) @ new"
        "fail_fast result (log0 @ [(c, pkg)]) r new"
        "r = Return None \<longrightarrow> all_nil result (log0 @ [(c, pkg)]) new" by blast
      have one: "all_nil result log0 [(c, pkg)]" using None by simp
      have "fail_fast result log0 r ([(c, pkg)] @ new)"
        by (rule fail_fast_seq [OF one new(2)])
      moreover have "r = Return None \<longrightarrow> all_nil result log0 ([(c, pkg)] @ new)"
        using new(3) None by simp
      ultimately show ?thesis using new(1) by auto
    next
      case (Some e)
      with False Cons.prems
      have "log = log0 @ [(c, pkg)]"
        "r = Return (Some (category_failure c pkg e))"
        by (simp_all add: logged_def generate_category_logging Wrap_def Sprintf2_def
            category_failure_def)
      moreover have "fail_fast result log0 (Return (Some (category_failure c pkg e))) [(c, pkg)]"
        unfolding fail_fast_def using Some
        by (intro disjI2 exI [of _ "[]"] exI [of _ c] exI [of _ pkg] exI [of _ e]) simp
      ultimately show ?thesis by auto
    qed
  qed
qed

lemma RunE_loop_logged:
  "RunE_loop (logged result cats) pattern pkgs log0 = (r, log) \<Longrightarrow>
   \<exists>new. log = log0 @ new \<and> fail_fast result log0 r new"
proof (induction pkgs arbitrary: log0)
  case Nil
  then show ?case by (simp add: fail_fast_def)
next
  case (Cons pkg pkgs)
  show ?case
  proof (cases "Errors pkg")
    case (Cons err errs)
    with Cons.prems have "log = log0" by simp
    then show ?thesis by (simp add: fail_fast_def)
  next
    case Nil
    obtain r1 log1 where run1: "run_generators (logged result cats) pkg log0 = (r1, log1)"
      by (cases "run_generators (logged result cats) pkg log0")
    from run_generators_logged [OF run1] obtain new1 where new1: "log1 = log0 @ new1"
      "fail_fast result log0 r1 new1" "r1 = Return None \<longrightarrow> all_nil result log0 new1"
      by blast
    show ?thesis
    proof (cases "r1 = Return None")
      case True
      with Nil run1 Cons.prems
      have "RunE_loop (logged result cats) pattern pkgs log1 = (r, log)" by simp
      from Cons.IH [OF this] obtain new2 where new2: "log = log1 @ new2"
        "fail_fast result log1 r new2" by blast
      from new1(3) True have "all_nil result log0 new1" by simp
      from fail_fast_seq [OF this] new2(2) new1(1)
      have "fail_fast result log0 r (new1 @ new2)" by simp
      then show ?thesis using new2(1) new1(1) by auto
    next
      case False
      with Nil run1 Cons.prems have "r = r1" "log = log1"
        by (auto split: outcome.splits option.splits)
      then show ?thesis using new1 by auto
    qed
  qed
qed

lemma fail_fast_last:
  assumes ff: "fail_fast result [] r log"
    and i: "i < length log"
    and fails: "result (take i log) (fst (log ! i)) (snd (log ! i)) = Some e"
  shows "Suc i = length log
    \<and> r = Return (Some (category_failure (fst (log ! i)) (snd (log ! i)) e))"
proof -
  from all_nil_nth [of result "[]" log i] i fails have "\<not> all_nil result [] log" by auto
  with ff obtain pre c p e' where pre: "log = pre @ [(c, p)]" "all_nil result [] pre"
    "result pre c p = Some e'" "r = Return (Some (category_failure c p e'))"
    unfolding fail_fast_def by auto
  have "\<not> i < length pre"
  proof
    assume lt: "i < length pre"
    from all_nil_nth [OF pre(2) lt] have "result (take i pre) (fst (pre ! i)) (snd (pre ! i)) = None"
      by simp
    with fails pre(1) lt show False by (simp add: nth_append)
  qed
  with i pre(1) have "i = length pre" by simp
  with pre fails show ?thesis by simp
qed

text \<open>
  Claim C8. Take any run of the command, with the calls of \<^verbatim>\<open>generate.WriteMethods\<close>
  logged and their results depending in any way on the calls made before. If some call,
  for a category and a package, returned an error, then that call was the last one of the
  run (no retry, no later category, no later package), and the command returned that
  error wrapped first with the message of the category and then with a message that ends
  with the path of the package. So a run that returns \<^verbatim>\<open>nil\<close> has had no failing
  call. The same holds for the version of the command with two categories.
\<close>

theorem RunE_fail_fast:
  assumes "i < length log"
    and "result (take i log) (fst (log ! i)) (snd (log ! i)) = Some e"
    and "RunE (logging result) pattern headerFile loaded header_read [] = (r, log)
       \<or> RunE_two (logging result) pattern headerFile loaded header_read [] = (r, log)"
  shows "Suc i = length log
    \<and> r = Return (Some (category_failure (fst (log ! i)) (snd (log ! i)) e))
    \<and> Error (category_failure (fst (log ! i)) (snd (log ! i)) e)
        = category_message (fst (log ! i)) @ '': '' @ Error e @ '' : ''
          @ PkgPath (snd (log ! i)) @ '': '' @ category_message (fst (log ! i)) @ '': ''
          @ Error e"
proof -
  have five: "[GenerateManaged (logging result), GenerateManagedList (logging result),
      GenerateTargetConfig (logging result), GenerateTargetConfigUsage (logging result),
      GenerateTargetConfigUsageList (logging result)]
    = logged result [CatManaged, CatManagedList, CatTargetConfig, CatTargetConfigUsage,
        CatTargetConfigUsageList]"
    by (simp add: logged_def GenerateManaged_def GenerateManagedList_def
        GenerateTargetConfig_def GenerateTargetConfigUsage_def
        GenerateTargetConfigUsageList_def)
  have two: "[GenerateManaged (logging result), GenerateManagedList (logging result)]
    = logged result [CatManaged, CatManagedList]"
    by (simp add: logged_def GenerateManaged_def GenerateManagedList_def)
  have "fail_fast result [] r log"
  proof (cases loaded)
    case (Inl err)
    with assms(3) have "log = []" by (auto simp: RunE_def RunE_two_def)
    then show ?thesis by (simp add: fail_fast_def)
  next
    case (Inr pkgs)
    show ?thesis
    proof (cases "if headerFile \<noteq> [] then header_read else Inr []")
      case (Inl err)
      with Inr assms(3) have "log = []" by (auto simp: RunE_def RunE_two_def)
      then show ?thesis by (simp add: fail_fast_def)
    next
      case (Inr header)
      with \<open>loaded = Inr pkgs\<close> assms(3) obtain cats where
        "RunE_loop (logged result cats) pattern pkgs [] = (r, log)"
        unfolding RunE_def RunE_two_def five two by auto
      from RunE_loop_logged [OF this] show ?thesis by simp
    qed
  qed
  from fail_fast_last [OF this assms(1) assms(2)] show ?thesis
    by (simp add: category_failure_def)
qed


lemma RunE_example:
  "RunE (logging list_of_a_fails) ''./...'' [] (Inr [pkg_a, pkg_b]) (Inr []) []
     = (Return (Some (category_failure CatManagedList pkg_a (Err ''permission denied''))),
        [(CatManaged, pkg_a), (CatManagedList, pkg_a)])"
  by (simp add: RunE_def GenerateManaged_def GenerateManagedList_def generate_category_logging
      list_of_a_fails_def pkg_a_def pkg_b_def Wrap_def Sprintf2_def category_failure_def)

theorem RunE_fail_fast_witness:
  "RunE (logging list_of_a_fails) ''./...'' [] (Inr [pkg_a, pkg_b]) (Inr []) []
     = (Return (Some (category_failure CatManagedList pkg_a (Err ''permission denied''))),
        [(CatManaged, pkg_a), (CatManagedList, pkg_a)])
   \<and> Suc 1 = length [(CatManaged, pkg_a), (CatManagedList, pkg_a)]
   \<and> Error (category_failure CatManagedList pkg_a (Err ''permission denied''))
       = ''cannot write managed resource list method set for package: permission denied : example.org/apis/a: cannot write managed resource list method set for package: permission denied''"
proof -
  let ?log = "[(CatManaged, pkg_a), (CatManagedList, pkg_a)]"
  have i: "1 < length ?log" by simp
  have f: "list_of_a_fails (take 1 ?log) (fst (?log ! 1)) (snd (?log ! 1))
      = Some (Err ''permission denied'')"
    by (simp add: list_of_a_fails_def pkg_a_def)
  from RunE_fail_fast [OF i f disjI1 [OF RunE_example]]
  show ?thesis using RunE_example
    by (simp add: pkg_a_def errWriteManagedResourceListMethod_def)
qed

section \<open>Properties of the written methods\<close>

lemma eval_recv_Items:
  assumes "locals st l = Some (VPtr a [])" and "a < length (heap st)"
    and "get_path (heap st ! a) [''Items''] = Some v"
  shows "eval (EDot (EId l) ''Items'') st = Some (v, st)"
  using assms by (simp add: read_place_def del: get_path.simps)

lemma place_recv_Items_at:
  assumes "locals st l = Some (VPtr a [])" and "a < length (heap st)"
    and "get_path (heap st ! a) [''Items''] = Some (VSlice b n)"
    and "locals st i = Some (VInt (int k))" and "k < n"
  shows "place_of (EIndex (EDot (EId l) ''Items'') (EId i)) st = Some (PHeap (b + k) [], st)"
  using assms eval_recv_Items [OF assms(1,2,3)]
  by (simp del: get_path.simps eval.simps(2))

lemma place_var_at:
  assumes "locals st x = Some (VSlice nb n)" and "locals st i = Some (VInt (int k))" and "k < n"
  shows "place_of (EIndex (EId x) (EId i)) st = Some (PHeap (nb + k) [], st)"
  using assms by simp

lemma GetItems_body:
  assumes "locals st l = Some (VPtr a [])" and "a < length (heap st)"
    and "get_path (heap st ! a) [''Items''] = Some (VSlice b n)"
    and "locals st ''i'' = Some (VInt (int k))" and "k < n"
    and "locals st ''items'' = Some (VSlice nb n)" and "nb + k < length (heap st)"
  shows "seq (map exec
           [SAssign (EIndex (EId ''items'') (EId ''i''))
              (EAddr (EIndex (EDot (EId l) ''Items'') (EId ''i'')))]) st
         = Some (None, st\<lparr>heap := (heap st)[nb + k := VPtr (b + k) []]\<rparr>)"
  using assms(7) place_recv_Items_at [OF assms(1,2,3,4,5)] place_var_at [OF assms(6,4,5)]
  by (simp add: write_place_def del: get_path.simps place_of.simps(3))


lemma heap_step:
  assumes "k < n" and "length xs = k"
  shows "(h @ xs @ replicate (n - k) z)[length h + k := x]
     = h @ (xs @ [x]) @ replicate (n - Suc k) z"
proof -
  from assms(1) have "n - k = Suc (n - Suc k)" by simp
  then have "replicate (n - k) z = z # replicate (n - Suc k) z" by simp
  then show ?thesis using assms(2) by (simp add: list_update_append)
qed

lemma GetItems_loop:
  assumes l: "l \<noteq> ''i''" "l \<noteq> ''items''"
    and a: "a < length h"
    and items: "get_path (h ! a) [''Items''] = Some (VSlice b n)"
  shows "k \<le> n \<Longrightarrow> locals st l = Some (VPtr a []) \<Longrightarrow>
    locals st ''items'' = Some (VSlice (length h) n) \<Longrightarrow>
    heap st = h @ map (\<lambda>j. VPtr (b + j) []) [0..<k] @ replicate (n - k) VNil \<Longrightarrow>
    \<exists>st'. for_each ''i''
            (seq (map exec
               [SAssign (EIndex (EId ''items'') (EId ''i''))
                  (EAddr (EIndex (EDot (EId l) ''Items'') (EId ''i'')))])) [k..<n] st
          = Some (None, st')
        \<and> heap st' = h @ map (\<lambda>j. VPtr (b + j) []) [0..<n]
        \<and> locals st' ''items'' = Some (VSlice (length h) n)"
proof (induction "n - k" arbitrary: k st)
  case 0
  then have "k = n" by simp
  with 0 show ?case by simp
next
  case (Suc d)
  then have kn: "k < n" by simp
  let ?body = "seq (map exec
               [SAssign (EIndex (EId ''items'') (EId ''i''))
                  (EAddr (EIndex (EDot (EId l) ''Items'') (EId ''i'')))])"
  let ?sti = "st\<lparr>locals := (locals st)(''i'' \<mapsto> VInt (int k))\<rparr>"
  let ?st2 = "?sti\<lparr>heap := (heap ?sti)[length h + k := VPtr (b + k) []]\<rparr>"
  have len: "length (heap st) = length h + n" using Suc.prems(4) kn by simp
  have ha: "heap st ! a = h ! a" using Suc.prems(4) a by (simp add: nth_append)
  have body: "?body ?sti = Some (None, ?st2)"
  proof (rule GetItems_body)
    show "locals ?sti l = Some (VPtr a [])" using Suc.prems(2) l by simp
    show "a < length (heap ?sti)" using a len by simp
    show "get_path (heap ?sti ! a) [''Items''] = Some (VSlice b n)"
      using items ha by (simp del: get_path.simps)
    show "locals ?sti ''i'' = Some (VInt (int k))" by simp
    show "k < n" by (rule kn)
    show "locals ?sti ''items'' = Some (VSlice (length h) n)" using Suc.prems(3) by simp
    show "length h + k < length (heap ?sti)" using len kn by simp
  qed
  have heap2: "heap ?st2 = h @ map (\<lambda>j. VPtr (b + j) []) [0..<Suc k] @ replicate (n - Suc k) VNil"
    using heap_step [OF kn, of "map (\<lambda>j. VPtr (b + j) []) [0..<k]" h VNil "VPtr (b + k) []"]
      Suc.prems(4) by simp
  have "\<exists>st'. for_each ''i'' ?body [Suc k..<n] ?st2 = Some (None, st')
        \<and> heap st' = h @ map (\<lambda>j. VPtr (b + j) []) [0..<n]
        \<and> locals st' ''items'' = Some (VSlice (length h) n)"
  proof (rule Suc.hyps(1))
    show "d = n - Suc k" using Suc.hyps(2) by simp
    show "Suc k \<le> n" using kn by simp
    show "locals ?st2 l = Some (VPtr a [])" using Suc.prems(2) l by simp
    show "locals ?st2 ''items'' = Some (VSlice (length h) n)" using Suc.prems(3) by simp
    show "heap ?st2 = h @ map (\<lambda>j. VPtr (b + j) []) [0..<Suc k] @ replicate (n - Suc k) VNil"
      by (rule heap2)
  qed
  then obtain st' where st': "for_each ''i'' ?body [Suc k..<n] ?st2 = Some (None, st')"
    "heap st' = h @ map (\<lambda>j. VPtr (b + j) []) [0..<n]"
    "locals st' ''items'' = Some (VSlice (length h) n)" by blast
  have "[k..<n] = k # [Suc k..<n]" using kn by (simp add: upt_conv_Cons)
  then have "for_each ''i'' ?body [k..<n] st = Some (None, st')"
    using body st'(1) by (simp del: seq.simps exec.simps)
  with st'(2,3) show ?case by blast
qed


lemma GetItems_call:
  assumes l: "l \<noteq> ''i''" "l \<noteq> ''items''"
    and a: "a < length h"
    and items: "get_path (h ! a) [''Items''] = Some (VSlice b n)"
  shows "call_method
       (Method l T ''GetItems'' [] res
          [SDefine ''items'' (EMake (TSlice (TQual q ''Managed'')) (ELen (EDot (EId l) ''Items''))),
           SForRange ''i'' (EDot (EId l) ''Items'')
             [SAssign (EIndex (EId ''items'') (EId ''i''))
                (EAddr (EIndex (EDot (EId l) ''Items'') (EId ''i'')))],
           SReturn (EId ''items'')])
       (VPtr a []) [] h
     = Some (Some (VSlice (length h) n), h @ map (\<lambda>k. VPtr (b + k) []) [0..<n])"
proof -
  let ?body = "[SAssign (EIndex (EId ''items'') (EId ''i''))
                (EAddr (EIndex (EDot (EId l) ''Items'') (EId ''i'')))]"
  let ?loop = "SForRange ''i'' (EDot (EId l) ''Items'') ?body"
  let ?def = "SDefine ''items'' (EMake (TSlice (TQual q ''Managed'')) (ELen (EDot (EId l) ''Items'')))"
  let ?st0 = "\<lparr>locals = [l \<mapsto> VPtr a []], heap = h\<rparr>"
  let ?st1 = "\<lparr>locals = [l \<mapsto> VPtr a [], ''items'' \<mapsto> VSlice (length h) n],
              heap = h @ replicate n VNil\<rparr>"
  have e0: "eval (EDot (EId l) ''Items'') ?st0 = Some (VSlice b n, ?st0)"
  proof (rule eval_recv_Items)
    show "locals ?st0 l = Some (VPtr a [])" by simp
    show "a < length (heap ?st0)" using a by simp
    show "get_path (heap ?st0 ! a) [''Items''] = Some (VSlice b n)"
      using items by (simp del: get_path.simps)
  qed
  have s1: "exec ?def ?st0 = Some (None, ?st1)"
    using e0 by (simp del: eval.simps(2))
  have e1: "eval (EDot (EId l) ''Items'') ?st1 = Some (VSlice b n, ?st1)"
  proof (rule eval_recv_Items)
    show "locals ?st1 l = Some (VPtr a [])" using l by simp
    show "a < length (heap ?st1)" using a by simp
    show "get_path (heap ?st1 ! a) [''Items''] = Some (VSlice b n)"
      using a items by (simp add: nth_append del: get_path.simps)
  qed
  have "\<exists>st'. for_each ''i'' (seq (map exec ?body)) [0..<n] ?st1 = Some (None, st')
        \<and> heap st' = h @ map (\<lambda>j. VPtr (b + j) []) [0..<n]
        \<and> locals st' ''items'' = Some (VSlice (length h) n)"
    by (rule GetItems_loop [OF l a items]) (use l in simp_all)
  then obtain st' where st': "for_each ''i'' (seq (map exec ?body)) [0..<n] ?st1 = Some (None, st')"
    "heap st' = h @ map (\<lambda>j. VPtr (b + j) []) [0..<n]"
    "locals st' ''items'' = Some (VSlice (length h) n)" by blast
  let ?st2 = "st'\<lparr>locals := (locals st')(''i'' := locals ?st1 ''i'')\<rparr>"
  have s2: "exec ?loop ?st1 = Some (None, ?st2)"
    using e1 st'(1) by (simp del: eval.simps(2) for_each.simps seq.simps)
  have s3: "exec (SReturn (EId ''items'')) ?st2 = Some (Some (VSlice (length h) n), ?st2)"
    using st'(3) by simp
  have "seq (map exec [?def, ?loop, SReturn (EId ''items'')]) ?st0
      = Some (Some (VSlice (length h) n), ?st2)"
    using s1 s2 s3 by (simp del: exec.simps)
  then show ?thesis
    using st'(2) by (simp add: call_method_def del: exec.simps seq.simps)
qed

lemma item_at_eq:
  assumes "a < length h" and "get_path (h ! a) [''Items''] = Some (VSlice b n)"
    and "k < n" and "b + k < length h"
  shows "item_at (VPtr a []) k h = Some (h ! (b + k))"
proof -
  let ?st = "\<lparr>locals = [''l'' \<mapsto> VPtr a [], ''k'' \<mapsto> VInt (int k)], heap = h\<rparr>"
  have "place_of (EIndex (EDot (EId ''l'') ''Items'') (EId ''k'')) ?st
      = Some (PHeap (b + k) [], ?st)"
  proof (rule place_recv_Items_at)
    show "locals ?st ''l'' = Some (VPtr a [])" by simp
    show "a < length (heap ?st)" using assms(1) by simp
    show "get_path (heap ?st ! a) [''Items''] = Some (VSlice b n)"
      using assms(2) by (simp del: get_path.simps)
    show "locals ?st ''k'' = Some (VInt (int k))" by simp
    show "k < n" by (rule assms(3))
  qed
  then show ?thesis
    using assms(4) by (simp add: item_at_def read_place_def del: place_of.simps)
qed

text \<open>
  Claim C6. The method \<^verbatim>\<open>GetItems\<close> that \<^verbatim>\<open>NewManagedGetItems\<close> writes, called on
  a receiver whose \<^verbatim>\<open>Items\<close> is a slice of length \<^verbatim>\<open>n\<close>, returns a slice of length
  \<^verbatim>\<open>n\<close> whose cells are freshly allocated: they lie after all the cells of the store
  before the call, which are left as they were. The \<^verbatim>\<open>k\<close>-th element of the result
  is the pointer to the cell of \<^verbatim>\<open>Items[k]\<close>, not a copy of it: a value stored through
  that pointer is the value that \<^verbatim>\<open>Items[k]\<close> of the receiver has afterwards.
\<close>

theorem GetItems_points_into_Items:
  assumes "receiver \<noteq> ''i''" and "receiver \<noteq> ''items''"
    and "a < length h" and "get_path (h ! a) [''Items''] = Some (VSlice b n)"
    and "b + n \<le> length h" and "a < b \<or> b + n \<le> a"
  shows "\<exists>m h'.
     NewManagedGetItems receiver resource f ob
       = f @ [Commentf (''GetItems of this '' @ Name ob @ ''.''), m]
     \<and> call_method m (VPtr a []) [] h = Some (Some (VSlice (length h) n), h')
     \<and> h' = h @ map (\<lambda>k. VPtr (b + k) []) [0..<n]
     \<and> length h' = length h + n \<and> take (length h) h' = h
     \<and> (\<forall>k<n. h' ! (length h + k) = VPtr (b + k) []
           \<and> item_at (VPtr a []) k h' = Some (h ! (b + k))
           \<and> (\<forall>v. \<exists>h''. store_through (h' ! (length h + k)) v h' = Some h''
                  \<and> item_at (VPtr a []) k h'' = Some v))"
proof -
  let ?h' = "h @ map (\<lambda>k. VPtr (b + k) []) [0..<n]"
  let ?m = "Method receiver (Name ob) ''GetItems'' [] [TSlice (TQual resource ''Managed'')]
            [SDefine ''items''
               (EMake (TSlice (TQual resource ''Managed'')) (ELen (EDot (EId receiver) ''Items''))),
             SForRange ''i'' (EDot (EId receiver) ''Items'')
               [SAssign (EIndex (EId ''items'') (EId ''i''))
                  (EAddr (EIndex (EDot (EId receiver) ''Items'') (EId ''i'')))],
             SReturn (EId ''items'')]"
  have gen: "NewManagedGetItems receiver resource f ob
       = f @ [Commentf (''GetItems of this '' @ Name ob @ ''.''), ?m]"
    by (simp add: NewManagedGetItems_def)
  have call: "call_method ?m (VPtr a []) [] h = Some (Some (VSlice (length h) n), ?h')"
    by (rule GetItems_call [OF assms(1,2,3,4)])
  have slots: "h' ! (length h + k) = VPtr (b + k) []
           \<and> item_at (VPtr a []) k h' = Some (h ! (b + k))
           \<and> (\<forall>v. \<exists>h''. store_through (h' ! (length h + k)) v h' = Some h''
                  \<and> item_at (VPtr a []) k h'' = Some v)"
    if k: "k < n" and h': "h' = ?h'" for k h'
  proof -
    have bk: "b + k < length h" using k assms(5) by simp
    have ak: "a \<noteq> b + k" using k assms(6) by auto
    have p: "h' ! (length h + k) = VPtr (b + k) []" using k h' by (simp add: nth_append)
    have ha: "h' ! a = h ! a" using assms(3) h' by (simp add: nth_append)
    have len: "length h' = length h + n" using h' by simp
    have i0: "item_at (VPtr a []) k h' = Some (h' ! (b + k))"
    proof (rule item_at_eq [where n = n])
      show "a < length h'" using assms(3) len by simp
      show "get_path (h' ! a) [''Items''] = Some (VSlice b n)"
        using assms(4) ha by (simp del: get_path.simps)
      show "k < n" by (rule k)
      show "b + k < length h'" using bk len by simp
    qed
    have i1: "item_at (VPtr a []) k h' = Some (h ! (b + k))"
      using i0 bk h' by (simp add: nth_append)
    have st: "store_through (h' ! (length h + k)) v h' = Some (h'[b + k := v])" for v
      using bk len by (simp add: p store_through_def write_place_def)
    have i2: "item_at (VPtr a []) k (h'[b + k := v]) = Some v" for v
    proof -
      have "item_at (VPtr a []) k (h'[b + k := v]) = Some ((h'[b + k := v]) ! (b + k))"
      proof (rule item_at_eq [where n = n])
        show "a < length (h'[b + k := v])" using assms(3) len by simp
        show "get_path (h'[b + k := v] ! a) [''Items''] = Some (VSlice b n)"
          using assms(4) ha ak by (simp del: get_path.simps)
        show "k < n" by (rule k)
        show "b + k < length (h'[b + k := v])" using bk len by simp
      qed
      then show ?thesis using bk len by simp
    qed
    from p i1 st i2 show ?thesis by simp
  qed
  have "length ?h' = length h + n \<and> take (length h) ?h' = h" by simp
  with gen call slots show ?thesis by blast
qed


theorem GetItems_points_into_Items_witness:
  "call_method (last (NewManagedGetItems ''l'' ''resource'' [] plain_object)) (VPtr 0 []) []
       list_heap
     = Some (Some (VSlice 4 3), list_heap @ [VPtr 1 [], VPtr 2 [], VPtr 3 []])
   \<and> (\<exists>h''. store_through (VPtr 2 []) (item True)
               (list_heap @ [VPtr 1 [], VPtr 2 [], VPtr 3 []]) = Some h''
          \<and> item_at (VPtr 0 []) 1 list_heap = Some (item False)
          \<and> item_at (VPtr 0 []) 1 h'' = Some (item True))"
proof -
  have h1: "(0::nat) < length list_heap" by (simp add: list_heap_def)
  have h2: "get_path (list_heap ! 0) [''Items''] = Some (VSlice 1 3)"
    by (simp add: list_heap_def)
  have h3: "1 + 3 \<le> length list_heap" by (simp add: list_heap_def)
  have h4: "(0::nat) < 1 \<or> 1 + 3 \<le> (0::nat)" by simp
  have l1: "''l'' \<noteq> ''i''" and l2: "''l'' \<noteq> ''items''" by simp_all
  from GetItems_points_into_Items [OF l1 l2 h1 h2 h3 h4, of "''resource''" "[]" plain_object]
  obtain m h' where m: "NewManagedGetItems ''l'' ''resource'' [] plain_object
       = [] @ [Commentf (''GetItems of this '' @ Name plain_object @ ''.''), m]"
    and call: "call_method m (VPtr 0 []) [] list_heap = Some (Some (VSlice (length list_heap) 3), h')"
    and h': "h' = list_heap @ map (\<lambda>k. VPtr (1 + k) []) [0..<3]"
    and slots: "\<forall>k<3. h' ! (length list_heap + k) = VPtr (1 + k) []
           \<and> item_at (VPtr 0 []) k h' = Some (list_heap ! (1 + k))
           \<and> (\<forall>v. \<exists>h''. store_through (h' ! (length list_heap + k)) v h' = Some h''
                  \<and> item_at (VPtr 0 []) k h'' = Some v)"
    by blast
  have last: "last (NewManagedGetItems ''l'' ''resource'' [] plain_object) = m"
    unfolding m by simp
  have heap': "h' = list_heap @ [VPtr 1 [], VPtr 2 [], VPtr 3 []]"
    unfolding h' by (simp add: upt_rec)
  have len: "length list_heap = 4" by (simp add: list_heap_def)
  have "(1::nat) < 3" by simp
  with slots have k1: "h' ! (length list_heap + 1) = VPtr (1 + 1) []
           \<and> item_at (VPtr 0 []) 1 h' = Some (list_heap ! (1 + 1))
           \<and> (\<forall>v. \<exists>h''. store_through (h' ! (length list_heap + 1)) v h' = Some h''
                  \<and> item_at (VPtr 0 []) 1 h'' = Some v)"
    by blast
  then have s1: "h' ! (length list_heap + 1) = VPtr 2 []" by simp
  from k1 have "\<exists>h''. store_through (h' ! (length list_heap + 1)) (item True) h' = Some h''
                  \<and> item_at (VPtr 0 []) 1 h'' = Some (item True)"
    by blast
  then have s2: "\<exists>h''. store_through (VPtr 2 []) (item True) h' = Some h''
                  \<and> item_at (VPtr 0 []) 1 h'' = Some (item True)"
    unfolding s1 .
  have before: "item_at (VPtr 0 []) 1 list_heap = Some (item False)"
    by (simp add: item_at_def list_heap_def read_place_def)
  show ?thesis
    using call s2 before unfolding last heap' len by simp
qed

lemma map_of_set_field:
  "map_of (set_field fs f v) g =
     (if g = f then (case map_of fs f of None \<Rightarrow> None | Some old \<Rightarrow> Some v) else map_of fs g)"
  by (induction fs) (auto simp: set_field_def)

lemma place_recv_Spec:
  assumes "locals st l = Some (VPtr a [])" and "a < length (heap st)"
    and "heap st ! a = VStruct fs" and "map_of fs ''Spec'' = Some (VStruct sfs)"
  shows "place_of (EDot (EDot (EId l) NameSpec) fld) st = Some (PHeap a [''Spec'', fld], st)"
  using assms by (simp add: NameSpec_def read_place_def)

lemma Get_Spec_field_call:
  assumes "a < length h" and "h ! a = VStruct fs"
    and "map_of fs ''Spec'' = Some (VStruct sfs)" and "map_of sfs fld = Some old"
  shows "call_method (Method l T name [] res [SReturn (EDot (EDot (EId l) NameSpec) fld)])
           (VPtr a []) [] h = Some (Some old, h)"
proof -
  let ?st = "\<lparr>locals = [l \<mapsto> VPtr a []], heap = h\<rparr>"
  have "place_of (EDot (EDot (EId l) NameSpec) fld) ?st = Some (PHeap a [''Spec'', fld], ?st)"
    by (rule place_recv_Spec [where fs = fs and sfs = sfs]) (use assms in simp_all)
  then show ?thesis
    using assms by (simp add: call_method_def read_place_def del: place_of.simps)
qed

lemma Set_Spec_field_call:
  assumes "a < length h" and "h ! a = VStruct fs"
    and "map_of fs ''Spec'' = Some (VStruct sfs)" and "map_of sfs fld = Some old"
    and "l \<noteq> ''r''"
  shows "call_method
           (Method l T name [(''r'', t)] []
              [SAssign (EDot (EDot (EId l) NameSpec) fld) (EId ''r'')])
           (VPtr a []) [r] h
         = Some (None, h[a := VStruct (set_field fs ''Spec'' (VStruct (set_field sfs fld r)))])"
proof -
  let ?st = "\<lparr>locals = [''r'' \<mapsto> r, l \<mapsto> VPtr a []], heap = h\<rparr>"
  have "place_of (EDot (EDot (EId l) NameSpec) fld) ?st = Some (PHeap a [''Spec'', fld], ?st)"
    by (rule place_recv_Spec [where fs = fs and sfs = sfs]) (use assms in simp_all)
  then show ?thesis
    using assms by (simp add: call_method_def write_place_def del: place_of.simps)
qed

text \<open>
  Claim C7. The method \<^verbatim>\<open>GetTargetConfigReference\<close> written for a declaration
  returns the value of the field \<^verbatim>\<open>Spec.TargetConfigReference\<close> of its receiver and
  changes nothing. The method \<^verbatim>\<open>SetTargetConfigReference\<close> stores its argument in
  that field: afterwards the getter returns the argument, every other field of
  \<^verbatim>\<open>Spec\<close> and every field of the receiver other than \<^verbatim>\<open>Spec\<close> is as before, and
  so is every other cell of the store.
\<close>

theorem TargetConfigReference_accessors:
  assumes "a < length h" and "h ! a = VStruct fs"
    and "map_of fs ''Spec'' = Some (VStruct sfs)"
    and "map_of sfs ''TargetConfigReference'' = Some old"
    and "receiver \<noteq> ''r''"
  shows "\<exists>getter setter fs' sfs'.
     NewGetTargetConfigReference receiver runtime f ob
       = f @ [Commentf (''GetTargetConfigReference of this '' @ Name ob @ ''.''), getter]
     \<and> NewSetTargetConfigReference receiver runtime f ob
       = f @ [Commentf (''SetTargetConfigReference of this '' @ Name ob @ ''.''), setter]
     \<and> call_method getter (VPtr a []) [] h = Some (Some old, h)
     \<and> sfs' = set_field sfs ''TargetConfigReference'' r
     \<and> fs' = set_field fs ''Spec'' (VStruct sfs')
     \<and> call_method setter (VPtr a []) [r] h = Some (None, h[a := VStruct fs'])
     \<and> call_method getter (VPtr a []) [] (h[a := VStruct fs']) = Some (Some r, h[a := VStruct fs'])
     \<and> map_of fs' ''Spec'' = Some (VStruct sfs')
     \<and> map_of sfs' ''TargetConfigReference'' = Some r
     \<and> (\<forall>g. g \<noteq> ''TargetConfigReference'' \<longrightarrow> map_of sfs' g = map_of sfs g)
     \<and> (\<forall>g. g \<noteq> ''Spec'' \<longrightarrow> map_of fs' g = map_of fs g)
     \<and> map fst fs' = map fst fs \<and> map fst sfs' = map fst sfs
     \<and> (\<forall>c. c \<noteq> a \<longrightarrow> (h[a := VStruct fs']) ! c = h ! c)"
proof -
  let ?sfs' = "set_field sfs ''TargetConfigReference'' r"
  let ?fs' = "set_field fs ''Spec'' (VStruct ?sfs')"
  let ?getter = "Method receiver (Name ob) ''GetTargetConfigReference''
            [] [TPtr (TQual runtime ''Reference'')]
            [SReturn (EDot (EDot (EId receiver) NameSpec) ''TargetConfigReference'')]"
  let ?setter = "Method receiver (Name ob) ''SetTargetConfigReference''
            [(''r'', TPtr (TQual runtime ''Reference''))] []
            [SAssign (EDot (EDot (EId receiver) NameSpec) ''TargetConfigReference'') (EId ''r'')]"
  have g: "NewGetTargetConfigReference receiver runtime f ob
       = f @ [Commentf (''GetTargetConfigReference of this '' @ Name ob @ ''.''), ?getter]"
    by (simp add: NewGetTargetConfigReference_def)
  have s: "NewSetTargetConfigReference receiver runtime f ob
       = f @ [Commentf (''SetTargetConfigReference of this '' @ Name ob @ ''.''), ?setter]"
    by (simp add: NewSetTargetConfigReference_def)
  have m1: "map_of ?fs' ''Spec'' = Some (VStruct ?sfs')"
    using assms(3) by (simp add: map_of_set_field)
  have m2: "map_of ?sfs' ''TargetConfigReference'' = Some r"
    using assms(4) by (simp add: map_of_set_field)
  have c1: "call_method ?getter (VPtr a []) [] h = Some (Some old, h)"
    by (rule Get_Spec_field_call [OF assms(1,2,3,4)])
  have c2: "call_method ?setter (VPtr a []) [r] h = Some (None, h[a := VStruct ?fs'])"
    by (rule Set_Spec_field_call [OF assms(1,2,3,4,5)])
  have c3: "call_method ?getter (VPtr a []) [] (h[a := VStruct ?fs'])
      = Some (Some r, h[a := VStruct ?fs'])"
    by (rule Get_Spec_field_call [OF _ _ m1 m2]) (use assms(1) in simp_all)
  have o1: "\<forall>g. g \<noteq> ''TargetConfigReference'' \<longrightarrow> map_of ?sfs' g = map_of sfs g"
    by (simp add: map_of_set_field)
  have o2: "\<forall>g. g \<noteq> ''Spec'' \<longrightarrow> map_of ?fs' g = map_of fs g"
    by (simp add: map_of_set_field)
  have n: "map fst ?fs' = map fst fs \<and> map fst ?sfs' = map fst sfs"
    by (simp add: set_field_def case_prod_unfold comp_def)
  have o3: "\<forall>c. c \<noteq> a \<longrightarrow> (h[a := VStruct ?fs']) ! c = h ! c" by simp
  from g s c1 c2 c3 m1 m2 o1 o2 n o3 show ?thesis by blast
qed



theorem TargetConfigReference_accessors_witness:
  "call_method (last (NewGetTargetConfigReference ''mg'' ''nddv1'' [] plain_object))
       (VPtr 1 []) [] list_heap
     = Some (Some VNil, list_heap)
   \<and> call_method (last (NewSetTargetConfigReference ''mg'' ''nddv1'' [] plain_object))
       (VPtr 1 []) [VStr ''ref''] list_heap
     = Some (None,
         [VStruct [(''TypeMeta'', VNil), (''Items'', VSlice 1 3)],
          VStruct [(''Spec'', VStruct [(''Active'', VBool False),
                                       (''TargetConfigReference'', VStr ''ref'')])],
          item False, item True])"
proof -
  let ?fs = "[(''Spec'', VStruct [(''Active'', VBool False), (''TargetConfigReference'', VNil)])]"
  let ?sfs = "[(''Active'', VBool False), (''TargetConfigReference'', VNil)]"
  have h1: "1 < length list_heap" by (simp add: list_heap_def)
  have h2: "list_heap ! 1 = VStruct ?fs" by (simp add: list_heap_def item_def)
  have h3: "map_of ?fs ''Spec'' = Some (VStruct ?sfs)" by simp
  have h4: "map_of ?sfs ''TargetConfigReference'' = Some VNil" by simp
  have h5: "''mg'' \<noteq> ''r''" by simp
  from TargetConfigReference_accessors [OF h1 h2 h3 h4 h5, of "''nddv1''" "[]" plain_object
      "VStr ''ref''"]
  obtain getter setter fs' sfs' where
    g: "NewGetTargetConfigReference ''mg'' ''nddv1'' [] plain_object
       = [] @ [Commentf (''GetTargetConfigReference of this '' @ Name plain_object @ ''.''), getter]"
    and s: "NewSetTargetConfigReference ''mg'' ''nddv1'' [] plain_object
       = [] @ [Commentf (''SetTargetConfigReference of this '' @ Name plain_object @ ''.''), setter]"
    and c1: "call_method getter (VPtr 1 []) [] list_heap = Some (Some VNil, list_heap)"
    and sfs': "sfs' = set_field ?sfs ''TargetConfigReference'' (VStr ''ref'')"
    and fs': "fs' = set_field ?fs ''Spec'' (VStruct sfs')"
    and c2: "call_method setter (VPtr 1 []) [VStr ''ref''] list_heap
         = Some (None, list_heap[1 := VStruct fs'])"
    by (elim exE conjE) (rule that; assumption)
  have lg: "last (NewGetTargetConfigReference ''mg'' ''nddv1'' [] plain_object) = getter"
    unfolding g by simp
  have ls: "last (NewSetTargetConfigReference ''mg'' ''nddv1'' [] plain_object) = setter"
    unfolding s by simp
  have "list_heap[1 := VStruct fs']
      = [VStruct [(''TypeMeta'', VNil), (''Items'', VSlice 1 3)],
          VStruct [(''Spec'', VStruct [(''Active'', VBool False),
                                       (''TargetConfigReference'', VStr ''ref'')])],
          item False, item True]"
    unfolding fs' sfs' by (simp add: list_heap_def set_field_def)
  with c1 c2 show ?thesis unfolding lg ls by simp
qed

end
